theory Spec2Isabelle
  imports Main "HOL-Library.AList" "HOL-Library.Multiset"
begin

section \<open>Text primitives of the analyzer\<close>

text \<open>
  Python strings are modelled as \<^typ>\<open>string\<close>: texts of code points below 256, a
  \<^typ>\<open>char\<close> being its code point. The helpers below are the string methods and the regular
  expressions that \<^verbatim>\<open>parallel_analyzer.py\<close> calls, each written as the matching function
  the regular expression denotes.
\<close>

definition newline :: char where
  "newline = CHR 0x0A"

definition tab :: char where
  "tab = CHR 0x09"

text \<open>
  The characters \<^verbatim>\<open>str.strip()\<close> removes and \<^verbatim>\<open>\s\<close> matches (those for which
  \<^verbatim>\<open>str.isspace()\<close> holds): the ASCII blanks and separators, the next-line control
  \<^verbatim>\<open>\x85\<close> and the no-break space \<^verbatim>\<open>\xa0\<close>.
\<close>

definition is_space :: "char \<Rightarrow> bool" where
  "is_space c = (c \<in> set [CHR 0x09, CHR 0x0A, CHR 0x0B, CHR 0x0C, CHR 0x0D,
                            CHR 0x1C, CHR 0x1D, CHR 0x1E, CHR 0x1F, CHR 0x20,
                            CHR 0x85, CHR 0xA0])"

text \<open>The characters \<^verbatim>\<open>\d\<close> matches: the decimal digits.\<close>

definition is_digit :: "char \<Rightarrow> bool" where
  "is_digit c = (c \<in> set ''0123456789'')"

text \<open>
  The characters \<^verbatim>\<open>str.isdigit()\<close> accepts: the decimal digits and the superscripts
  \<^verbatim>\<open>\xb2\<close>, \<^verbatim>\<open>\xb3\<close> and \<^verbatim>\<open>\xb9\<close>.
\<close>

definition is_digit_char :: "char \<Rightarrow> bool" where
  "is_digit_char c = (is_digit c \<or> c \<in> set [CHR 0xB2, CHR 0xB3, CHR 0xB9])"

text \<open>
  \<^verbatim>\<open>str.lower()\<close> on one character: the capital letters \<^verbatim>\<open>A\<close> to \<^verbatim>\<open>Z\<close> and those of the
  range \<^verbatim>\<open>\xc0\<close> to \<^verbatim>\<open>\xde\<close> (the multiplication sign \<^verbatim>\<open>\xd7\<close> apart) move up by 32.
\<close>

definition lower_char :: "char \<Rightarrow> char" where
  "lower_char c =
     (let n = (of_char c :: nat) in
      if (65 \<le> n \<and> n \<le> 90) \<or> (192 \<le> n \<and> n \<le> 222 \<and> n \<noteq> 215) then char_of (n + 32) else c)"

definition str_lower :: "string \<Rightarrow> string" where
  "str_lower s = map lower_char s"

definition str_strip :: "string \<Rightarrow> string" where
  "str_strip s = rev (dropWhile is_space (rev (dropWhile is_space s)))"


text \<open>\<^verbatim>\<open>str.isdigit()\<close>: non-empty and digits only.\<close>

definition str_isdigit :: "string \<Rightarrow> bool" where
  "str_isdigit s = (s \<noteq> [] \<and> list_all is_digit_char s)"

fun starts_with :: "string \<Rightarrow> string \<Rightarrow> bool" where
  "starts_with [] s = True"
| "starts_with (p # ps) [] = False"
| "starts_with (p # ps) (c # cs) = (p = c \<and> starts_with ps cs)"

text \<open>\<^verbatim>\<open>sub in s\<close>\<close>

fun str_contains :: "string \<Rightarrow> string \<Rightarrow> bool" where
  "str_contains sub [] = (sub = [])"
| "str_contains sub (c # cs) = (starts_with sub (c # cs) \<or> str_contains sub cs)"

text \<open>\<^verbatim>\<open>"\n".join(lines)\<close>\<close>

fun join_lines :: "string list \<Rightarrow> string" where
  "join_lines [] = []"
| "join_lines [l] = l"
| "join_lines (l # m # ls) = l @ newline # join_lines (m # ls)"

text \<open>\<^verbatim>\<open>str(i)\<close> for a non-negative integer, used for the generated names \<^verbatim>\<open>col0, col1, ...\<close>\<close>

fun str_of_nat :: "nat \<Rightarrow> string" where
  "str_of_nat n =
     (if n < 10 then [char_of (48 + n)] else str_of_nat (n div 10) @ [char_of (48 + n mod 10)])"

subsection \<open>The regular expressions\<close>

text \<open>
  \<^verbatim>\<open>\d{1,3}\<close> is greedy; whatever follows it in \<^verbatim>\<open>IP_REGEX\<close> is a dot or nothing, so
  backtracking to fewer digits never helps and the greedy run decides the match.
\<close>

definition digits3 :: "string \<Rightarrow> string" where
  "digits3 s = takeWhile is_digit (take 3 s)"

text \<open>\<^verbatim>\<open>\d{1,3}\.\<close> at the start of \<open>s\<close>: the matched text.\<close>

definition octet_dot :: "string \<Rightarrow> string option" where
  "octet_dot s =
     (let ds = digits3 s in
      if ds \<noteq> [] \<and> starts_with ''.'' (drop (length ds) s) then Some (ds @ ''.'') else None)"

text \<open>
  \<^verbatim>\<open>re.match(IP_REGEX, s)\<close> with \<^verbatim>\<open>IP_REGEX = r"(?:\d{1,3}\.){3}\d{1,3}"\<close>: the text
  matched at the start of \<open>s\<close>, if any. No range check is made on the four groups.
\<close>

definition match_ip :: "string \<Rightarrow> string option" where
  "match_ip s =
     (case octet_dot s of None \<Rightarrow> None | Some a \<Rightarrow>
      (case octet_dot (drop (length a) s) of None \<Rightarrow> None | Some b \<Rightarrow>
       (case octet_dot (drop (length a + length b) s) of None \<Rightarrow> None | Some c \<Rightarrow>
        (let d = digits3 (drop (length a + length b + length c) s) in
         if d \<noteq> [] then Some (a @ b @ c @ d) else None))))"

text \<open>
  \<^verbatim>\<open>re.findall(IP_REGEX, line)\<close>: the non-overlapping matches from left to right; after a
  match the scan resumes at its end, otherwise one character further.
\<close>

function findall_ip :: "string \<Rightarrow> string list" where
  "findall_ip [] = []"
| "findall_ip (c # cs) =
     (case match_ip (c # cs) of
        Some m \<Rightarrow> m # findall_ip (drop (length m - 1) cs)
      | None \<Rightarrow> findall_ip cs)"
  by pat_completeness auto
termination
  by (relation "measure length") auto

text \<open>\<^verbatim>\<open>from (IP_REGEX)\<close> at the start of \<open>s\<close>: the captured group.\<close>

definition from_ip :: "string \<Rightarrow> string option" where
  "from_ip s = (if starts_with ''from '' s then match_ip (drop 5 s) else None)"

text \<open>
  \<^verbatim>\<open>.*from (IP_REGEX)\<close> at the start of \<open>s\<close>: the greedy \<^verbatim>\<open>.*\<close> first consumes a
  character (any but a newline) and gives it back only when the rest fails, so the last
  \<^verbatim>\<open>from <IP>\<close> of the line is captured.
\<close>

fun dotstar_from :: "string \<Rightarrow> string option" where
  "dotstar_from [] = from_ip []"
| "dotstar_from (c # cs) =
     (if c \<noteq> newline then
        (case dotstar_from cs of Some ip \<Rightarrow> Some ip | None \<Rightarrow> from_ip (c # cs))
      else from_ip (c # cs))"

text \<open>
  \<^verbatim>\<open>re.search(r"Failed password for.*from (" + IP_REGEX + r")", line)\<close>: group 1 of the
  leftmost match.
\<close>

fun search_failed_password :: "string \<Rightarrow> string option" where
  "search_failed_password [] = None"
| "search_failed_password (c # cs) =
     (if starts_with ''Failed password for'' (c # cs) then
        (case dotstar_from (drop 19 (c # cs)) of
           Some ip \<Rightarrow> Some ip
         | None \<Rightarrow> search_failed_password cs)
      else search_failed_password cs)"

text \<open>\<^verbatim>\<open>re.search(r"\s{2,}", sample)\<close> finds a match.\<close>

fun has_space_run :: "string \<Rightarrow> bool" where
  "has_space_run (a # b # cs) = ((is_space a \<and> is_space b) \<or> has_space_run (b # cs))"
| "has_space_run _ = False"

text \<open>
  \<^verbatim>\<open>re.match(r"^-?\d+(\.\d+)?$", s)\<close> matches. \<^verbatim>\<open>$\<close> also matches just before a
  final newline.
\<close>

definition at_end :: "string \<Rightarrow> bool" where
  "at_end r = (r = [] \<or> r = [newline])"

definition numeric_like :: "string \<Rightarrow> bool" where
  "numeric_like s =
     (let s1 = (if starts_with ''-'' s then drop 1 s else s);
          r1 = dropWhile is_digit s1
      in takeWhile is_digit s1 \<noteq> [] \<and>
         (at_end r1 \<or>
          (case r1 of
             [] \<Rightarrow> False
           | c # r2 \<Rightarrow> c = CHR ''.'' \<and> takeWhile is_digit r2 \<noteq> [] \<and>
                        at_end (dropWhile is_digit r2))))"

section \<open>Tallies\<close>

text \<open>
  A tally is the Python dict \<^verbatim>\<open>suspicious_ips\<close>: keys in insertion order, each bound once.
  \<^const>\<open>AList.update\<close> overwrites a bound key in place and appends a new one, as a dict
  assignment does.
\<close>

type_synonym tally = "(string \<times> int) list"

text \<open>\<^verbatim>\<open>d.get(k, dflt)\<close>\<close>

definition dict_get :: "tally \<Rightarrow> string \<Rightarrow> int \<Rightarrow> int" where
  "dict_get d k dflt = (case map_of d k of Some v \<Rightarrow> v | None \<Rightarrow> dflt)"

text \<open>\<^verbatim>\<open>d[k] = d.get(k, 0) + 1\<close>\<close>

definition bump :: "tally \<Rightarrow> string \<Rightarrow> tally" where
  "bump d k = AList.update k (dict_get d k 0 + 1) d"

text \<open>\<^verbatim>\<open>for ip in re.findall(IP_REGEX, line): d[ip] = d.get(ip, 0) + 1\<close>\<close>

definition bump_all :: "tally \<Rightarrow> string list \<Rightarrow> tally" where
  "bump_all d ips = fold (\<lambda>ip acc. bump acc ip) ips d"

section \<open>The free-form detector\<close>

text \<open>The body of the loop over plain log lines (the \<^verbatim>\<open>else\<close> branch of \<^verbatim>\<open>analyze_logs\<close>).\<close>

definition freeform_line :: "tally \<Rightarrow> string \<Rightarrow> tally" where
  "freeform_line d line =
     (case search_failed_password line of
        Some ip \<Rightarrow> bump d ip
      | None \<Rightarrow> bump_all d (findall_ip line))"

definition freeform :: "tally \<Rightarrow> string list \<Rightarrow> tally" where
  "freeform d log_chunk = fold (\<lambda>line acc. freeform_line acc line) log_chunk d"

text \<open>The loop of the \<^verbatim>\<open>except\<close> branch: every IP-shaped match of every line.\<close>

definition fallback_extract :: "tally \<Rightarrow> string list \<Rightarrow> tally" where
  "fallback_extract d log_chunk = fold (\<lambda>line acc. bump_all acc (findall_ip line)) log_chunk d"

section \<open>Errors\<close>

text \<open>
  The exceptions of the program as values, by exception class. \<open>LibraryError\<close> stands for
  whatever the standard library or pandas raises (\<^verbatim>\<open>OSError\<close>, a JSON or CSV parse error,
  ...), carrying its message.
\<close>

datatype py_error =
    ValueError string
  | RuntimeError string
  | IndexError string
  | LibraryError string




section \<open>The loader\<close>











section \<open>Partitioning and aggregation\<close>

text \<open>\<^verbatim>\<open>range(start, stop, step)\<close> for a positive step.\<close>

function py_range :: "nat \<Rightarrow> nat \<Rightarrow> nat \<Rightarrow> nat list" where
  "py_range start stop step =
     (if 0 < step \<and> start < stop then start # py_range (start + step) stop step else [])"
  by pat_completeness auto
termination
  by (relation "measure (\<lambda>(start, stop, step). stop - start)") auto

declare py_range.simps [simp del]

text \<open>\<^verbatim>\<open>xs[i::step]\<close>: the elements at the indices \<^verbatim>\<open>range(i, len(xs), step)\<close>.\<close>

definition slice_from :: "'a list \<Rightarrow> nat \<Rightarrow> nat \<Rightarrow> 'a list" where
  "slice_from xs i step = map (\<lambda>k. xs ! k) (py_range i (length xs) step)"

text \<open>\<^verbatim>\<open>chunks = [logs[i::size] for i in range(size)]\<close>\<close>

definition chunks :: "nat \<Rightarrow> 'a list \<Rightarrow> 'a list list" where
  "chunks nproc logs = map (\<lambda>i. slice_from logs i nproc) [0..<nproc]"

text \<open>\<^verbatim>\<open>for ip, c in r.items(): final[ip] = final.get(ip, 0) + c\<close>\<close>

definition merge_one :: "tally \<Rightarrow> tally \<Rightarrow> tally" where
  "merge_one final r =
     fold (\<lambda>(ip, c) acc. AList.update ip (dict_get acc ip 0 + c) acc) r final"

definition merge_tallies :: "tally list \<Rightarrow> tally" where
  "merge_tallies all_results = fold (\<lambda>r acc. merge_one acc r) all_results []"

text \<open>
  What rank 0 writes: the merged tally, or the one-key object \<^verbatim>\<open>{"message": ...}\<close> when the
  merged tally is empty.
\<close>

datatype analysis_result = Tally tally | Message string

definition no_results_message :: string where
  "no_results_message = ''No suspicious IPs or attack patterns detected.''"

definition aggregate :: "tally list \<Rightarrow> analysis_result" where
  "aggregate all_results =
     (let final = merge_tallies all_results in
      if final = [] then Message no_results_message else Tally final)"

section \<open>Data frames and the library calls\<close>

text \<open>
  A pandas \<^verbatim>\<open>DataFrame\<close> as the analyzer sees it: the column labels and the rows. A cell
  is the pair of the two texts the analyzer reads from it: the text that \<^verbatim>\<open>str\<close> gives for
  the value in the row that \<^verbatim>\<open>iterrows\<close> yields, and the text of the value in
  \<^verbatim>\<open>df[col].astype(str)\<close>. (The two differ when \<^verbatim>\<open>iterrows\<close> widens a row to one type,
  for instance \<^verbatim>\<open>1\<close> to \<^verbatim>\<open>1.0\<close>.) A missing value reads \<^verbatim>\<open>nan\<close>. Every row has one cell
  per label.

  \<^verbatim>\<open>read_csv\<close> makes the labels of a file distinct, but \<^verbatim>\<open>analyze_logs\<close> then trims them,
  so that two labels which differ in surrounding blanks become one: labels may repeat, and
  pandas answers differently for a repeated label (a \<^verbatim>\<open>DataFrame\<close> in place of a column,
  a \<^verbatim>\<open>Series\<close> in place of a value).
\<close>

type_synonym cell = "string \<times> string"

definition row_text :: "cell \<Rightarrow> string" where
  "row_text c = fst c"

definition col_text :: "cell \<Rightarrow> string" where
  "col_text c = snd c"

text \<open>A cell of a text column: both readings are the text itself.\<close>

definition text_cell :: "string \<Rightarrow> cell" where
  "text_cell v = (v, v)"

record dataframe =
  columns :: "string list"
  rows :: "cell list list"

text \<open>
  The library behaviour that the analyzer does not control:
  \<^item> \<open>csv_sniff\<close>: \<^verbatim>\<open>csv.Sniffer().sniff(text).delimiter\<close>, \<open>None\<close> when it raises;
  \<^item> \<open>read_csv\<close>: \<^verbatim>\<open>pd.read_csv(StringIO(text), sep=sep, engine="python", header=0)\<close>,
    \<open>Inl\<close> when it raises;
  \<^item> \<open>get_repeated\<close>: \<^verbatim>\<open>str(row.get(label, ""))\<close> for the row of index \<open>i\<close> when several
    columns carry the label (the printed form of a \<^verbatim>\<open>Series\<close>);
  \<^item> \<open>row_error\<close>: the exception, if any, that a library call raises while the body of
    the row loop handles the row of index \<open>i\<close> (for instance \<^verbatim>\<open>re.match\<close> on a value
    that \<^verbatim>\<open>astype(str)\<close> left missing); every such call precedes the update of the tally;
  \<^item> \<open>frame_counts_error\<close>: the exception, if any, that
    \<^verbatim>\<open>df[label].astype(str).value_counts()\<close> raises when several columns carry the
    label; when it returns, its keys are tuples, whose \<^verbatim>\<open>str\<close> starts with a bracket.
\<close>

record pylib =
  csv_sniff :: "string \<Rightarrow> string option"
  read_csv :: "string \<Rightarrow> string \<Rightarrow> py_error + dataframe"
  get_repeated :: "dataframe \<Rightarrow> nat \<Rightarrow> string \<Rightarrow> string"
  row_error :: "dataframe \<Rightarrow> nat \<Rightarrow> py_error option"
  frame_counts_error :: "dataframe \<Rightarrow> string \<Rightarrow> py_error option"

text \<open>The number of columns that carry a label.\<close>

definition label_count :: "dataframe \<Rightarrow> string \<Rightarrow> nat" where
  "label_count df c = count_list (columns df) c"

text \<open>
  \<^verbatim>\<open>str(row.get(c, ""))\<close> for the row of index \<open>i\<close>: the default for an absent label, the
  value for a label carried once, the printed \<^verbatim>\<open>Series\<close> for a repeated label.
\<close>

definition row_get :: "pylib \<Rightarrow> dataframe \<Rightarrow> nat \<Rightarrow> cell list \<Rightarrow> string \<Rightarrow> string" where
  "row_get lib df i row c =
     (if label_count df c = 0 then []
      else if label_count df c = 1 then
        (case map_of (zip (columns df) row) c of Some x \<Rightarrow> row_text x | None \<Rightarrow> [])
      else get_repeated lib df i c)"

text \<open>
  \<^verbatim>\<open>df[c].astype(str)\<close> as a column of texts: \<open>None\<close> unless exactly one column carries the
  label (for a repeated label pandas returns a \<^verbatim>\<open>DataFrame\<close>).
\<close>

definition series_of :: "dataframe \<Rightarrow> string \<Rightarrow> string list option" where
  "series_of df c =
     (if label_count df c = 1 then
        Some (map (\<lambda>row. case map_of (zip (columns df) row) c of
                             Some x \<Rightarrow> col_text x | None \<Rightarrow> []) (rows df))
      else None)"

text \<open>
  The \<^verbatim>\<open>AttributeError\<close> of \<^verbatim>\<open>sample.str\<close> when \<^verbatim>\<open>sample\<close> is a \<^verbatim>\<open>DataFrame\<close>.
\<close>

definition no_str_accessor :: py_error where
  "no_str_accessor = LibraryError ''AttributeError: DataFrame object has no attribute str''"

text \<open>\<^verbatim>\<open>cols.index(name)\<close>\<close>

fun index_of :: "'a list \<Rightarrow> 'a \<Rightarrow> nat" where
  "index_of [] x = 0"
| "index_of (y # ys) x = (if y = x then 0 else Suc (index_of ys x))"

text \<open>\<^verbatim>\<open>any(k in name for k in keys)\<close>\<close>

definition name_hit :: "string list \<Rightarrow> string \<Rightarrow> bool" where
  "name_hit keys name = list_ex (\<lambda>k. str_contains k name) keys"

definition src_keys :: "string list" where
  "src_keys = [''src'', ''source'', ''sip'', ''src_ip'', ''source_ip'']"

definition attack_keys :: "string list" where
  "attack_keys = [''attack'', ''label'', ''cat'', ''class'']"

text \<open>\<^verbatim>\<open>sniff_delimiter\<close>; the last resort is the regular expression \<^verbatim>\<open>\s+\<close> as a string.\<close>

definition sniff_delimiter :: "pylib \<Rightarrow> string \<Rightarrow> string" where
  "sniff_delimiter lib sample_text =
     (case csv_sniff lib (take 4096 sample_text) of
        Some delimiter \<Rightarrow> delimiter
      | None \<Rightarrow>
          if str_contains [tab] sample_text then [tab]
          else if str_contains '';'' sample_text then '';''
          else if str_contains '','' sample_text then '',''
          else [CHR 0x5C, CHR ''s'', CHR ''+''])"

section \<open>Column inference\<close>

text \<open>
  \<^verbatim>\<open>sample.str.count(IP_REGEX).sum()\<close> over \<^verbatim>\<open>sample = df[col].astype(str).head(200)\<close>,
  given the texts of the column.
\<close>

definition ip_count :: "string list \<Rightarrow> nat" where
  "ip_count vs = sum_list (map (\<lambda>v. length (findall_ip v)) (take 200 vs))"

text \<open>\<^verbatim>\<open>max(1, min(10, len(sample)//10))\<close>\<close>

definition ip_threshold :: "string list \<Rightarrow> nat" where
  "ip_threshold vs = max 1 (min 10 (length (take 200 vs) div 10))"

text \<open>
  The loop \<^verbatim>\<open>for col in df.columns\<close> of \<^verbatim>\<open>find_src_col\<close> over the labels still to visit:
  the first label whose column reaches the threshold, \<open>None\<close> when the loop ends, the
  \<^verbatim>\<open>AttributeError\<close> when a repeated label is reached first.
\<close>

fun src_content_scan :: "dataframe \<Rightarrow> string list \<Rightarrow> py_error + string option" where
  "src_content_scan df [] = Inr None"
| "src_content_scan df (col # cs) =
     (case series_of df col of
        None \<Rightarrow> Inl no_str_accessor
      | Some vs \<Rightarrow>
          if ip_threshold vs \<le> ip_count vs then Inr (Some col) else src_content_scan df cs)"

definition find_src_col :: "dataframe \<Rightarrow> py_error + string" where
  "find_src_col df =
     (let cols = map str_lower (columns df) in
      case List.find (name_hit src_keys) cols of
        Some name \<Rightarrow> Inr (columns df ! index_of cols name)
      | None \<Rightarrow>
          (case src_content_scan df (columns df) of
             Inl e \<Rightarrow> Inl e
           | Inr (Some col) \<Rightarrow> Inr col
           | Inr None \<Rightarrow>
               (case columns df of
                  [] \<Rightarrow> Inl (IndexError ''index 0 is out of bounds for axis 0 with size 0'')
                | c # cs \<Rightarrow> Inr c)))"

text \<open>
  \<^verbatim>\<open>sample.str.match(r"^-?\d+(\.\d+)?$").apply(lambda x: not x).sum()\<close> over
  \<^verbatim>\<open>sample = df[col].astype(str).fillna("").head(500)\<close>, given the texts of the column.
\<close>

definition non_numeric_count :: "string list \<Rightarrow> nat" where
  "non_numeric_count vs = length (filter (\<lambda>v. \<not> numeric_like v) (take 500 vs))"

text \<open>\<^verbatim>\<open>xs[-6:]\<close>\<close>

definition last_six :: "'a list \<Rightarrow> 'a list" where
  "last_six xs = drop (length xs - 6) xs"

text \<open>
  The loop \<^verbatim>\<open>for col in reversed(tail_cols)\<close> of \<^verbatim>\<open>find_attack_col\<close> over the labels still
  to visit.
\<close>

fun attack_content_scan :: "dataframe \<Rightarrow> string list \<Rightarrow> py_error + string option" where
  "attack_content_scan df [] = Inr None"
| "attack_content_scan df (col # cs) =
     (case series_of df col of
        None \<Rightarrow> Inl no_str_accessor
      | Some vs \<Rightarrow>
          if 1 \<le> non_numeric_count vs then Inr (Some col) else attack_content_scan df cs)"

definition find_attack_col :: "dataframe \<Rightarrow> py_error + string option" where
  "find_attack_col df =
     (let cols = map str_lower (columns df) in
      case List.find (name_hit attack_keys) cols of
        Some name \<Rightarrow> Inr (Some (columns df ! index_of cols name))
      | None \<Rightarrow> attack_content_scan df (rev (last_six (columns df))))"

section \<open>The tabular detector\<close>

definition benign_values :: "string list" where
  "benign_values = [''0'', ''-'', ''normal'', ''benign'', ''none'', []]"

text \<open>
  \<^verbatim>\<open>src_val = str(row.get(src_col, "")).strip() if src_col in df.columns else ""\<close>
\<close>

definition src_value :: "pylib \<Rightarrow> dataframe \<Rightarrow> string \<Rightarrow> nat \<Rightarrow> cell list \<Rightarrow> string" where
  "src_value lib df src_col i row =
     (if src_col \<in> set (columns df) then str_strip (row_get lib df i row src_col) else [])"

text \<open>\<^verbatim>\<open>if not src_val or src_val.lower() == "nan": continue\<close>\<close>

definition skip_row :: "string \<Rightarrow> bool" where
  "skip_row src_val = (src_val = [] \<or> str_lower src_val = ''nan'')"

text \<open>
  \<^verbatim>\<open>str(row.get(attack_col, ""))\<close>, where \<^verbatim>\<open>attack_col\<close> may be \<^verbatim>\<open>None\<close> (which labels
  no cell).
\<close>

definition attack_cell :: "pylib \<Rightarrow> dataframe \<Rightarrow> string option \<Rightarrow> nat \<Rightarrow> cell list \<Rightarrow> string" where
  "attack_cell lib df attack_col i row =
     (case attack_col of None \<Rightarrow> [] | Some a \<Rightarrow> row_get lib df i row a)"

text \<open>
  The test \<^verbatim>\<open>if attack_col and str(row.get(attack_col, "")).strip()\<close>: the label is
  neither \<^verbatim>\<open>None\<close> nor the empty string, and the trimmed cell is not empty.
\<close>

definition attack_branch :: "pylib \<Rightarrow> dataframe \<Rightarrow> string option \<Rightarrow> nat \<Rightarrow> cell list \<Rightarrow> bool" where
  "attack_branch lib df attack_col i row =
     ((case attack_col of None \<Rightarrow> False | Some a \<Rightarrow> a \<noteq> []) \<and>
      str_strip (attack_cell lib df attack_col i row) \<noteq> [])"

text \<open>\<^verbatim>\<open>attack_val not in ("0", "-", "normal", "benign", "none", "")\<close>\<close>

definition attack_counts :: "pylib \<Rightarrow> dataframe \<Rightarrow> string option \<Rightarrow> nat \<Rightarrow> cell list \<Rightarrow> bool" where
  "attack_counts lib df attack_col i row =
     (str_lower (str_strip (attack_cell lib df attack_col i row)) \<notin> set benign_values)"

text \<open>
  \<^verbatim>\<open>any(t and not re.match(r"^-?\d+(\.\d+)?$", t) for t in tail)\<close> over
  \<^verbatim>\<open>tail = row.iloc[-6:].astype(str).str.strip().str.lower().tolist()\<close>
\<close>

definition tail_counts :: "cell list \<Rightarrow> bool" where
  "tail_counts row =
     list_ex (\<lambda>t. t \<noteq> [] \<and> \<not> numeric_like t)
       (map (\<lambda>c. str_lower (str_strip (row_text c))) (last_six row))"

text \<open>The body of \<^verbatim>\<open>for _, row in df.iterrows()\<close> for a row that raises nothing.\<close>

definition scan_row ::
    "pylib \<Rightarrow> dataframe \<Rightarrow> string \<Rightarrow> string option \<Rightarrow> tally \<Rightarrow> nat \<Rightarrow> cell list \<Rightarrow> tally" where
  "scan_row lib df src_col attack_col d i row =
     (let src_val = src_value lib df src_col i row in
      if skip_row src_val then d
      else if attack_branch lib df attack_col i row then
        (if attack_counts lib df attack_col i row then bump d src_val else d)
      else
        (if tail_counts row then bump d src_val else d))"

text \<open>
  The row loop from the tally \<open>d\<close> over the rows still to visit, each with its index. An
  exception leaves the loop with the tally as the rows before have made it.
\<close>

fun scan_rows_from ::
    "pylib \<Rightarrow> dataframe \<Rightarrow> string \<Rightarrow> string option \<Rightarrow> tally \<Rightarrow> (nat \<times> cell list) list
       \<Rightarrow> (py_error \<times> tally) + tally" where
  "scan_rows_from lib df src_col attack_col d [] = Inr d"
| "scan_rows_from lib df src_col attack_col d ((i, row) # rs) =
     (case row_error lib df i of
        Some e \<Rightarrow> Inl (e, d)
      | None \<Rightarrow>
          scan_rows_from lib df src_col attack_col (scan_row lib df src_col attack_col d i row) rs)"

definition scan_rows ::
    "pylib \<Rightarrow> dataframe \<Rightarrow> string \<Rightarrow> string option \<Rightarrow> (py_error \<times> tally) + tally" where
  "scan_rows lib df src_col attack_col =
     scan_rows_from lib df src_col attack_col [] (enumerate 0 (rows df))"

text \<open>
  \<^verbatim>\<open>df[src_col].astype(str).value_counts().to_dict()\<close> for a column of texts: each
  distinct value with the number of its occurrences. (pandas lists them by falling count;
  the order of the keys is not modelled.)
\<close>

definition value_counts :: "string list \<Rightarrow> (string \<times> int) list" where
  "value_counts vs = map (\<lambda>v. (v, int (count_list vs v))) (remdups vs)"

text \<open>
  \<^verbatim>\<open>for ip, cnt in freqs.items(): if re.match(IP_REGEX, str(ip)) and cnt > 1:
  suspicious_ips[ip] = cnt\<close>
\<close>

definition frequency_fallback :: "tally \<Rightarrow> string list \<Rightarrow> tally" where
  "frequency_fallback d vs =
     fold (\<lambda>(ip, cnt) acc. if match_ip ip \<noteq> None \<and> 1 < cnt then AList.update ip cnt acc else acc)
       (value_counts vs) d"

text \<open>
  Everything after \<^verbatim>\<open>read_csv\<close> and the header handling inside the \<^verbatim>\<open>try\<close> block, from
  \<^verbatim>\<open>src_col = find_src_col(df)\<close> on. An exception comes with the tally at the time it is
  raised. For a repeated source label the frequencies are keyed by tuples, none of which
  matches the IP pattern, so nothing is added.
\<close>

definition analyze_frame :: "pylib \<Rightarrow> dataframe \<Rightarrow> (py_error \<times> tally) + tally" where
  "analyze_frame lib df =
     (case find_src_col df of
        Inl e \<Rightarrow> Inl (e, [])
      | Inr src_col \<Rightarrow>
          (case find_attack_col df of
             Inl e \<Rightarrow> Inl (e, [])
           | Inr attack_col \<Rightarrow>
               (case scan_rows lib df src_col attack_col of
                  Inl failure \<Rightarrow> Inl failure
                | Inr suspicious_ips \<Rightarrow>
                    if suspicious_ips = [] \<and> src_col \<noteq> [] then
                      (case series_of df src_col of
                         Some vs \<Rightarrow> Inr (frequency_fallback suspicious_ips vs)
                       | None \<Rightarrow>
                           (case frame_counts_error lib df src_col of
                              Some e \<Rightarrow> Inl (e, suspicious_ips)
                            | None \<Rightarrow> Inr suspicious_ips))
                    else Inr suspicious_ips)))"

text \<open>
  The header handling: labels are trimmed; when every label is a digit string they are
  replaced by \<^verbatim>\<open>col0, col1, ...\<close>.
\<close>

definition normalize_columns :: "dataframe \<Rightarrow> dataframe" where
  "normalize_columns df =
     (let cs = map str_strip (columns df) in
      df\<lparr>columns :=
           (if list_all (\<lambda>c. str_isdigit (str_strip c)) cs
            then map (\<lambda>i. ''col'' @ str_of_nat i) [0..<length cs] else cs)\<rparr>)"

text \<open>
  The \<^verbatim>\<open>try\<close> block: the tally it returns, or the exception together with the tally
  \<^verbatim>\<open>suspicious_ips\<close> as it stands when the exception is raised.
\<close>

definition tabular_attempt :: "pylib \<Rightarrow> string \<Rightarrow> string list \<Rightarrow> (py_error \<times> tally) + tally" where
  "tabular_attempt lib sample log_chunk =
     (let sep = sniff_delimiter lib sample in
      case read_csv lib (join_lines log_chunk) sep of
        Inl e \<Rightarrow> Inl (e, [])
      | Inr df \<Rightarrow> analyze_frame lib (normalize_columns df))"

text \<open>
  \<^verbatim>\<open>any(d in sample for d in [",", "\t", ";"]) or re.search(r"\s{2,}", sample)\<close>
\<close>

definition is_tabular :: "string \<Rightarrow> bool" where
  "is_tabular sample =
     (list_ex (\<lambda>d. str_contains d sample) ['','', [tab], '';''] \<or> has_space_run sample)"

definition chunk_sample :: "string list \<Rightarrow> string" where
  "chunk_sample log_chunk = join_lines (take 10 log_chunk)"

text \<open>
  \<^verbatim>\<open>analyze_logs\<close>. The \<^verbatim>\<open>except\<close> branch goes on from the tally the \<^verbatim>\<open>try\<close> block has
  left.
\<close>

definition analyze_logs :: "pylib \<Rightarrow> string list \<Rightarrow> tally" where
  "analyze_logs lib log_chunk =
     (let sample = chunk_sample log_chunk in
      if is_tabular sample then
        (case tabular_attempt lib sample log_chunk of
           Inr suspicious_ips \<Rightarrow> suspicious_ips
         | Inl (e, suspicious_ips) \<Rightarrow> fallback_extract suspicious_ips log_chunk)
      else freeform [] log_chunk)"

section \<open>The run\<close>

text \<open>
  \<^verbatim>\<open>main\<close> after loading, with \<open>nproc\<close> ranks. When no record was loaded, rank 0 returns
  before the scatter and nothing is written (\<open>None\<close>; any other rank then waits in the
  scatter without end). Otherwise the records are dealt out, each rank analyzes its chunk,
  and rank 0 merges the tallies gathered in rank order.
\<close>

definition run_analysis :: "pylib \<Rightarrow> nat \<Rightarrow> string list \<Rightarrow> analysis_result option" where
  "run_analysis lib nproc logs =
     (if logs = [] then None
      else Some (aggregate (map (analyze_logs lib) (chunks nproc logs))))"


text \<open>Two results have the same content: the same message, or the same IP-to-count mapping.\<close>

fun same_content :: "analysis_result \<Rightarrow> analysis_result \<Rightarrow> bool" where
  "same_content (Tally a) (Tally b) = (map_of a = map_of b)"
| "same_content (Message a) (Message b) = (a = b)"
| "same_content _ _ = False"

section \<open>Recorded library behaviour\<close>

text \<open>
  For concrete runs: the frames that \<^verbatim>\<open>read_csv\<close> returns, with the comma as separator,
  on the few texts the runs below hand to it. A line alone is a header with no rows; an
  empty field is a missing value. No other text is recorded.
\<close>

text \<open>
  The frame for the lines \<^verbatim>\<open>src_ip,label\<close>, \<^verbatim>\<open>1.1.1.1,\<close>, \<^verbatim>\<open>2.2.2.2,exploit\<close>: the empty
  label is a missing value.
\<close>

definition empty_label_frame :: dataframe where
  "empty_label_frame =
     \<lparr>columns = [''src_ip'', ''label''],
      rows = [map text_cell [''1.1.1.1'', ''nan''],
              map text_cell [''2.2.2.2'', ''exploit'']]\<rparr>"

text \<open>
  The frame for the lines \<^verbatim>\<open>src_ip,label\<close>, \<^verbatim>\<open>1.1.1.1,0\<close>, \<^verbatim>\<open>2.2.2.2,\<close>: the label column
  holds a number and a missing value, which makes it a column of floats.
\<close>

definition zero_label_frame :: dataframe where
  "zero_label_frame =
     \<lparr>columns = [''src_ip'', ''label''],
      rows = [map text_cell [''1.1.1.1'', ''0.0''],
              map text_cell [''2.2.2.2'', ''nan'']]\<rparr>"

definition recorded_frames :: "(string \<times> dataframe) list" where
  "recorded_frames =
     [(''src_ip,label'',
         \<lparr>columns = [''src_ip'', ''label''], rows = []\<rparr>),
      (''9.9.9.9,exploit'',
         \<lparr>columns = [''9.9.9.9'', ''exploit''], rows = []\<rparr>),
      (join_lines [''src_ip,label'', ''9.9.9.9,exploit''],
         \<lparr>columns = [''src_ip'', ''label''],
          rows = [map text_cell [''9.9.9.9'', ''exploit'']]\<rparr>),
      (join_lines [''src_ip,label'', ''9.9.9.9,benign'', ''9.9.9.9,exploit''],
         \<lparr>columns = [''src_ip'', ''label''],
          rows = [map text_cell [''9.9.9.9'', ''benign''],
                  map text_cell [''9.9.9.9'', ''exploit'']]\<rparr>),
      (join_lines [''src_ip,label'', ''1.1.1.1,'', ''2.2.2.2,exploit''], empty_label_frame),
      (join_lines [''src_ip,label'', ''1.1.1.1,0'', ''2.2.2.2,''], zero_label_frame)]"

definition recorded_read_csv :: "string \<Rightarrow> string \<Rightarrow> py_error + dataframe" where
  "recorded_read_csv txt sep =
     (case map_of recorded_frames txt of
        Some df \<Rightarrow> if sep = '','' then Inr df else Inl (LibraryError ''no recorded frame'')
      | None \<Rightarrow> Inl (LibraryError ''no recorded frame''))"

text \<open>
  The recorded library: the sniffer reports the comma, no row raises, and
  \<^verbatim>\<open>DataFrame.value_counts\<close> returns. No recorded frame repeats a label, so the printed
  form of a \<^verbatim>\<open>Series\<close> is never asked for.
\<close>

definition recorded_lib :: pylib where
  "recorded_lib =
     \<lparr>csv_sniff = (\<lambda>s. Some '',''),
      read_csv = recorded_read_csv,
      get_repeated = (\<lambda>df i c. ''Series''),
      row_error = (\<lambda>df i. None),
      frame_counts_error = (\<lambda>df c. None)\<rparr>"




section \<open>Notions and inputs used in the statements\<close>

text \<open>The counts bound to \<open>k\<close> in the entries of a tally, added up.\<close>

definition entry_sum :: "tally \<Rightarrow> string \<Rightarrow> int" where
  "entry_sum r k = sum_list (map snd (filter (\<lambda>p. fst p = k) r))"

text \<open>The keys one line adds to in the free-form detector, one entry per increment.\<close>

definition line_hits :: "string \<Rightarrow> string list" where
  "line_hits line =
     (case search_failed_password line of Some ip \<Rightarrow> [ip] | None \<Rightarrow> findall_ip line)"

text \<open>The lines of scenarios A and B.\<close>

definition scenario_a :: string where
  "scenario_a = ''Jan 1 00:00:00 host sshd: Failed password for root from 10.0.0.5 port 22''"

definition scenario_b :: string where
  "scenario_b = ''seen 1.1.1.1 and 2.2.2.2''"








text \<open>Every count of a tally is strictly positive.\<close>

definition positive_tally :: "tally \<Rightarrow> bool" where
  "positive_tally t = (\<forall>(ip, c)\<in>set t. 0 < c)"



text \<open>
  A delimited input whose first data row has an empty label: \<^verbatim>\<open>read_csv\<close> reads the empty
  field as a missing value, which \<^verbatim>\<open>str\<close> prints as \<^verbatim>\<open>nan\<close>.
\<close>

definition empty_label_logs :: "string list" where
  "empty_label_logs = [''src_ip,label'', ''1.1.1.1,'', ''2.2.2.2,exploit'']"

text \<open>The same with the label \<^verbatim>\<open>0\<close> in the first data row and none in the second.\<close>

definition zero_label_logs :: "string list" where
  "zero_label_logs = [''src_ip,label'', ''1.1.1.1,0'', ''2.2.2.2,'']"


text \<open>
  A two-line delimited input: a header and one labelled row. With one worker the row is
  counted; with two workers each chunk is a single line, which \<^verbatim>\<open>read_csv\<close> takes as a
  header with no rows, and nothing is counted.
\<close>

definition labelled_logs :: "string list" where
  "labelled_logs = [''src_ip,label'', ''9.9.9.9,exploit'']"

text \<open>The number of increments the free-form detector makes for key \<open>k\<close> over some lines.\<close>

definition hit_total :: "string list \<Rightarrow> string \<Rightarrow> int" where
  "hit_total ls k = (\<Sum>l\<leftarrow>ls. int (count_list (line_hits l) k))"

text \<open>
  The tally that an attempt leaves: the one it returns, or the one that stands when it
  raises.
\<close>

definition left_tally :: "(py_error \<times> tally) + tally \<Rightarrow> tally" where
  "left_tally r = (case r of Inl (e, partial) \<Rightarrow> partial | Inr t \<Rightarrow> t)"

section \<open>Properties of tallies and of the aggregator\<close>

lemma map_of_bump: "map_of (bump d k) = (map_of d)(k \<mapsto> dict_get d k 0 + 1)"
  by (simp add: bump_def update_conv')

lemma dict_get_bump: "dict_get (bump d k) j 0 = dict_get d j 0 + (if j = k then 1 else 0)"
  by (simp add: dict_get_def map_of_bump)

lemma keys_bump: "fst ` set (bump d k) = insert k (fst ` set d)"
  by (simp add: bump_def dom_update)

lemma distinct_bump: "distinct (map fst d) \<Longrightarrow> distinct (map fst (bump d k))"
  by (simp add: bump_def distinct_update)

lemma dict_get_bump_all: "dict_get (bump_all d ks) j 0 = dict_get d j 0 + int (count_list ks j)"
  unfolding bump_all_def
  by (induction ks arbitrary: d) (auto simp: dict_get_bump)

lemma keys_bump_all: "fst ` set (bump_all d ks) = fst ` set d \<union> set ks"
  unfolding bump_all_def
  by (induction ks arbitrary: d) (auto simp: keys_bump)

lemma distinct_bump_all: "distinct (map fst d) \<Longrightarrow> distinct (map fst (bump_all d ks))"
  unfolding bump_all_def
  by (induction ks arbitrary: d) (auto simp: distinct_bump)

lemma set_update_subset: "set (AList.update k v al) \<subseteq> insert (k, v) (set al)"
  by (induction al) auto

lemma map_of_dict_get:
  "map_of d k = (if k \<in> fst ` set d then Some (dict_get d k 0) else None)"
  by (auto simp: dict_get_def map_of_eq_None_iff split: option.splits)

lemma entry_sum_simps [simp]:
  "entry_sum [] k = 0"
  "entry_sum ((j, c) # r) k = (if j = k then c else 0) + entry_sum r k"
  by (simp_all add: entry_sum_def)

lemma entry_sum_absent: "k \<notin> fst ` set r \<Longrightarrow> entry_sum r k = 0"
  by (induction r) (auto simp: entry_sum_def)

lemma entry_sum_distinct: "distinct (map fst r) \<Longrightarrow> entry_sum r k = dict_get r k 0"
proof (induction r)
  case Nil
  then show ?case by (simp add: dict_get_def)
next
  case (Cons p r)
  obtain j c where p: "p = (j, c)" by (cases p)
  show ?case
  proof (cases "j = k")
    case True
    with Cons.prems p have "k \<notin> fst ` set r" by auto
    then have "entry_sum r k = 0" by (rule entry_sum_absent)
    with True p show ?thesis by (simp add: dict_get_def)
  next
    case False
    with Cons p show ?thesis by (simp add: dict_get_def)
  qed
qed

lemma dict_get_merge_one:
  "dict_get (merge_one final r) k 0 = dict_get final k 0 + entry_sum r k"
  unfolding merge_one_def
proof (induction r arbitrary: final)
  case Nil
  then show ?case by simp
next
  case (Cons p r)
  obtain j c where p: "p = (j, c)" by (cases p)
  show ?case
    by (simp add: p Cons.IH) (simp add: dict_get_def update_conv')
qed

lemma keys_merge_one: "fst ` set (merge_one final r) = fst ` set final \<union> fst ` set r"
  unfolding merge_one_def
  by (induction r arbitrary: final) (auto simp: dom_update split: prod.splits)

lemma distinct_merge_one:
  "distinct (map fst final) \<Longrightarrow> distinct (map fst (merge_one final r))"
  unfolding merge_one_def
  by (induction r arbitrary: final) (auto simp: distinct_update split: prod.splits)

lemma dict_get_merge_fold:
  "dict_get (fold (\<lambda>r acc. merge_one acc r) ts acc) k 0 =
     dict_get acc k 0 + (\<Sum>t\<leftarrow>ts. entry_sum t k)"
  by (induction ts arbitrary: acc) (simp_all add: dict_get_merge_one)

lemma keys_merge_fold:
  "fst ` set (fold (\<lambda>r acc. merge_one acc r) ts acc) = fst ` set acc \<union> (\<Union>t\<in>set ts. fst ` set t)"
  by (induction ts arbitrary: acc) (auto simp: keys_merge_one)

lemma distinct_merge_fold:
  "distinct (map fst acc) \<Longrightarrow> distinct (map fst (fold (\<lambda>r acc. merge_one acc r) ts acc))"
  by (induction ts arbitrary: acc) (auto simp: distinct_merge_one)

lemma dict_get_merge_tallies: "dict_get (merge_tallies ts) k 0 = (\<Sum>t\<leftarrow>ts. entry_sum t k)"
proof -
  have "dict_get [] k 0 = 0" by (simp add: dict_get_def)
  then show ?thesis
    unfolding merge_tallies_def by (simp only: dict_get_merge_fold)
qed

lemma keys_merge_tallies: "fst ` set (merge_tallies ts) = (\<Union>t\<in>set ts. fst ` set t)"
  by (simp add: merge_tallies_def keys_merge_fold)

lemma distinct_merge_tallies: "distinct (map fst (merge_tallies ts))"
  by (simp add: merge_tallies_def distinct_merge_fold)

lemma map_of_merge_tallies:
  "map_of (merge_tallies ts) k =
     (if \<exists>t\<in>set ts. k \<in> fst ` set t then Some (\<Sum>t\<leftarrow>ts. entry_sum t k) else None)"
  by (simp add: map_of_dict_get [of "merge_tallies ts"] keys_merge_tallies dict_get_merge_tallies)

lemma merge_tallies_empty_iff: "merge_tallies ts = [] \<longleftrightarrow> (\<forall>t\<in>set ts. t = [])"
proof -
  have "merge_tallies ts = [] \<longleftrightarrow> fst ` set (merge_tallies ts) = {}" by simp
  also have "\<dots> \<longleftrightarrow> (\<forall>t\<in>set ts. t = [])" by (simp add: keys_merge_tallies)
  finally show ?thesis .
qed

lemma sum_list_mset_cong:
  fixes f :: "'a \<Rightarrow> int"
  shows "mset xs = mset ys \<Longrightarrow> sum_list (map f xs) = sum_list (map f ys)"
proof -
  assume "mset xs = mset ys"
  then have "mset (map f xs) = mset (map f ys)" by (metis mset_map)
  then have "sum_mset (mset (map f xs)) = sum_mset (mset (map f ys))" by simp
  then show ?thesis by (simp only: sum_mset_sum_list)
qed

lemma map_of_merge_tallies_perm:
  assumes "mset ts' = mset ts"
  shows "map_of (merge_tallies ts') = map_of (merge_tallies ts)"
proof
  fix k
  from assms have s: "set ts' = set ts" by (rule mset_eq_setD)
  have "(\<Sum>t\<leftarrow>ts'. entry_sum t k) = (\<Sum>t\<leftarrow>ts. entry_sum t k)"
    using assms by (rule sum_list_mset_cong)
  then show "map_of (merge_tallies ts') k = map_of (merge_tallies ts) k"
    by (simp add: map_of_merge_tallies s)
qed

lemma sum_list_filter_zero:
  fixes f :: "'a \<Rightarrow> int"
  assumes "\<And>x. x \<in> set xs \<Longrightarrow> \<not> P x \<Longrightarrow> f x = 0"
  shows "sum_list (map f (filter P xs)) = sum_list (map f xs)"
  using assms by (induction xs) auto

text \<open>
  Claim C3. For every sequence of per-worker tallies (Python dicts, so each key is bound
  once in a tally), the merged mapping binds every key that occurs in some tally to the
  sum of its counts over the tallies that contain it, and binds no other key; the
  aggregator returns the message result exactly when the merged mapping is empty (which
  is exactly when every tally is empty) and the merged tally otherwise; and merging the
  same tallies in any other order gives the same mapping and the same result content.
\<close>

theorem aggregate_sums_counts:
  assumes "\<forall>t\<in>set ts. distinct (map fst t)" and "mset ts' = mset ts"
  shows "map_of (merge_tallies ts) k =
           (if \<exists>t\<in>set ts. k \<in> fst ` set t
            then Some (\<Sum>t\<leftarrow>filter (\<lambda>t. k \<in> fst ` set t) ts. dict_get t k 0) else None)
       \<and> distinct (map fst (merge_tallies ts))
       \<and> ((\<exists>m. aggregate ts = Message m) \<longleftrightarrow> merge_tallies ts = [])
       \<and> (merge_tallies ts \<noteq> [] \<longrightarrow> aggregate ts = Tally (merge_tallies ts))
       \<and> (merge_tallies ts = [] \<longleftrightarrow> (\<forall>t\<in>set ts. t = []))
       \<and> map_of (merge_tallies ts') = map_of (merge_tallies ts)
       \<and> same_content (aggregate ts') (aggregate ts)"
proof -
  have a: "(\<Sum>t\<leftarrow>filter (\<lambda>t. k \<in> fst ` set t) ts. dict_get t k 0) = (\<Sum>t\<leftarrow>ts. entry_sum t k)"
  proof -
    have "(\<Sum>t\<leftarrow>filter (\<lambda>t. k \<in> fst ` set t) ts. dict_get t k 0)
            = (\<Sum>t\<leftarrow>filter (\<lambda>t. k \<in> fst ` set t) ts. entry_sum t k)"
      using assms(1) by (intro arg_cong [where f = sum_list] map_cong refl) (simp add: entry_sum_distinct)
    also have "\<dots> = (\<Sum>t\<leftarrow>ts. entry_sum t k)"
      by (rule sum_list_filter_zero) (simp add: entry_sum_absent)
    finally show ?thesis .
  qed
  have p: "map_of (merge_tallies ts') = map_of (merge_tallies ts)"
    using assms(2) by (rule map_of_merge_tallies_perm)
  have e: "merge_tallies ts' = [] \<longleftrightarrow> merge_tallies ts = []"
    using p by (metis map_of_eq_empty_iff)
  have s: "same_content (aggregate ts') (aggregate ts)"
    using p e by (simp add: aggregate_def Let_def)
  show ?thesis
    using a p s
    by (simp add: map_of_merge_tallies distinct_merge_tallies merge_tallies_empty_iff
        aggregate_def Let_def)
qed

theorem aggregate_sums_counts_witness:
  "map_of (merge_tallies [[(''1.1.1.1'', 2), (''2.2.2.2'', 1)], [], [(''2.2.2.2'', 4)]]) ''2.2.2.2'' = Some 5
   \<and> aggregate [[(''1.1.1.1'', 2), (''2.2.2.2'', 1)], [], [(''2.2.2.2'', 4)]]
       = Tally [(''1.1.1.1'', 2), (''2.2.2.2'', 5)]
   \<and> same_content (aggregate [[(''2.2.2.2'', 4)], [(''1.1.1.1'', 2), (''2.2.2.2'', 1)], []])
       (aggregate [[(''1.1.1.1'', 2), (''2.2.2.2'', 1)], [], [(''2.2.2.2'', 4)]])
   \<and> aggregate [[], []] = Message no_results_message"
proof -
  let ?ts = "[[(''1.1.1.1'', 2), (''2.2.2.2'', 1)], [], [(''2.2.2.2'', 4)]] :: tally list"
  let ?ts' = "[[(''2.2.2.2'', 4)], [(''1.1.1.1'', 2), (''2.2.2.2'', 1)], []] :: tally list"
  have d: "\<forall>t\<in>set ?ts. distinct (map fst t)" by simp
  have m: "mset ?ts' = mset ?ts" by (simp add: add.commute)
  note th = aggregate_sums_counts [OF d m, of "''2.2.2.2''"]
  have 1: "map_of (merge_tallies ?ts) ''2.2.2.2'' = Some 5"
    using th [THEN conjunct1] by (simp add: dict_get_def)
  have 2: "same_content (aggregate ?ts') (aggregate ?ts)"
    using th by (elim conjE)
  have 3: "aggregate ?ts = Tally [(''1.1.1.1'', 2), (''2.2.2.2'', 5)]" by code_simp
  have 4: "aggregate [[], []] = Message no_results_message" by code_simp
  from 1 2 3 4 show ?thesis by (intro conjI)
qed

section \<open>Properties of the partitioning\<close>

lemma set_py_range:
  "0 < w \<Longrightarrow> set (py_range i n w) = {k. i \<le> k \<and> k < n \<and> (k - i) mod w = 0}"
proof (induction i n w rule: py_range.induct)
  case (1 start stop step)
  show ?case
  proof (cases "start < stop")
    case False
    with 1 show ?thesis by (subst py_range.simps) auto
  next
    case True
    have ih: "set (py_range (start + step) stop step)
                = {k. start + step \<le> k \<and> k < stop \<and> (k - (start + step)) mod step = 0}"
      using 1 True by simp
    have "{k. start \<le> k \<and> k < stop \<and> (k - start) mod step = 0}
            = insert start {k. start + step \<le> k \<and> k < stop \<and> (k - (start + step)) mod step = 0}"
      (is "?L = insert start ?R")
    proof (rule set_eqI)
      fix k
      show "k \<in> ?L \<longleftrightarrow> k \<in> insert start ?R"
      proof (cases "k = start")
        case True
        with \<open>start < stop\<close> show ?thesis by simp
      next
        case ne: False
        show ?thesis
        proof (cases "start + step \<le> k")
          case True
          then obtain j where j: "k = start + step + j" by (auto simp: le_iff_add)
          have e1: "k - start = j + step" and e2: "k - (start + step) = j" using j by simp_all
          have "(k - start) mod step = (k - (start + step)) mod step"
            unfolding e1 e2 by simp
          with True ne show ?thesis by auto
        next
          case False
          then have "k - start < step" using 1(2) by linarith
          with False ne 1(2) show ?thesis by auto
        qed
      qed
    qed
    with ih True 1(2) show ?thesis by (subst py_range.simps) simp
  qed
qed

lemma distinct_py_range: "distinct (py_range i n w)"
proof (induction i n w rule: py_range.induct)
  case (1 start stop step)
  show ?case
  proof (cases "0 < step \<and> start < stop")
    case False
    then show ?thesis by (subst py_range.simps) auto
  next
    case True
    then have a: "start \<notin> set (py_range (start + step) stop step)"
      by (simp add: set_py_range)
    from 1 True have b: "distinct (py_range (start + step) stop step)" by simp
    from a b True show ?thesis by (subst py_range.simps) simp
  qed
qed

lemma mod_class_indices:
  fixes w r n :: nat
  assumes "0 < w" "r < w"
  shows "{k. r \<le> k \<and> k < n \<and> (k - r) mod w = 0} = {k. k < n \<and> k mod w = r}"
proof (rule set_eqI)
  fix k :: nat
  show "k \<in> {k. r \<le> k \<and> k < n \<and> (k - r) mod w = 0} \<longleftrightarrow> k \<in> {k. k < n \<and> k mod w = r}"
  proof (cases "r \<le> k")
    case True
    then have k: "k = (k - r) + r" by simp
    have "(k - r) mod w = 0 \<longleftrightarrow> k mod w = r"
    proof
      assume "(k - r) mod w = 0"
      then have "((k - r) + r) mod w = r mod w" by (metis add_cancel_left_left mod_add_left_eq)
      with k assms show "k mod w = r" by simp
    next
      assume "k mod w = r"
      then have "k mod w = r mod w" using assms by simp
      then show "(k - r) mod w = 0" using True
        by (metis mod_eq_dvd_iff_nat dvd_imp_mod_0)
    qed
    with True show ?thesis by simp
  next
    case False
    then have "k < r" by simp
    with assms have "k mod w = k" by simp
    with False show ?thesis by auto
  qed
qed

lemma set_py_range_class:
  "0 < w \<Longrightarrow> r < w \<Longrightarrow> set (py_range r n w) = {k. k < n \<and> k mod w = r}"
  by (simp add: set_py_range mod_class_indices)

lemma py_range_nth:
  "0 < w \<Longrightarrow> r \<le> i \<Longrightarrow> i < n \<Longrightarrow> (i - r) mod w = 0 \<Longrightarrow>
     (i - r) div w < length (py_range r n w) \<and> py_range r n w ! ((i - r) div w) = i"
proof (induction r n w rule: py_range.induct)
  case (1 start stop step)
  from 1(3,4) have lt: "start < stop" by simp
  show ?case
  proof (cases "i = start")
    case True
    with lt 1(2) show ?thesis by (subst py_range.simps, subst (2) py_range.simps) simp
  next
    case False
    with 1(3) have "0 < i - start" by simp
    with 1(5) 1(2) have ge: "step \<le> i - start"
      by (metis mod_less not_le less_numeral_extra(3))
    then have le: "start + step \<le> i" using 1(3) by linarith
    from le obtain j where j: "i = start + step + j" by (auto simp: le_iff_add)
    have e1: "i - start = j + step" and e2: "i - (start + step) = j" using j by simp_all
    have m: "(i - (start + step)) mod step = 0"
      using 1(5) unfolding e1 e2 by simp
    have d: "(i - start) div step = Suc ((i - (start + step)) div step)"
      unfolding e1 e2 using 1(2) by (simp add: div_add_self2)
    from 1(1) [OF _ 1(2) le 1(4) m] lt 1(2)
    have ih: "(i - (start + step)) div step < length (py_range (start + step) stop step)
              \<and> py_range (start + step) stop step ! ((i - (start + step)) div step) = i"
      by simp
    show ?thesis
      using ih lt 1(2) d by (subst py_range.simps, subst (2) py_range.simps) simp
  qed
qed

lemma py_range_class_nth:
  assumes "0 < w" "i < n"
  shows "i div w < length (py_range (i mod w) n w) \<and> py_range (i mod w) n w ! (i div w) = i"
proof -
  have a: "i - i mod w = (i div w) * w" by (simp add: minus_mod_eq_div_mult)
  then have b: "(i - i mod w) mod w = 0" by simp
  from a assms have c: "(i - i mod w) div w = i div w" by simp
  from py_range_nth [OF assms(1) _ assms(2) b] c show ?thesis by simp
qed

lemma mset_class_union:
  "w' \<le> w \<Longrightarrow>
   (\<Sum>r\<leftarrow>[0..<w']. mset_set {k. k < n \<and> k mod w = r}) = mset_set {k. k < (n::nat) \<and> k mod w < w'}"
proof (induction w')
  case 0
  then show ?case by simp
next
  case (Suc w')
  have split: "{k. k < n \<and> k mod w < Suc w'} = {k. k < n \<and> k mod w < w'} \<union> {k. k < n \<and> k mod w = w'}"
    by auto
  have disj: "{k. k < n \<and> k mod w < w'} \<inter> {k. k < n \<and> k mod w = w'} = {}" by auto
  have "mset_set {k. k < n \<and> k mod w < Suc w'}
          = mset_set {k. k < n \<and> k mod w < w'} + mset_set {k. k < n \<and> k mod w = w'}"
    unfolding split by (rule mset_set_Union) (simp_all add: disj)
  with Suc show ?case by simp
qed

lemma mset_index_classes:
  assumes "0 < w"
  shows "(\<Sum>r\<leftarrow>[0..<w]. mset (py_range r n w)) = mset [0..<n]"
proof -
  have "(\<Sum>r\<leftarrow>[0..<w]. mset (py_range r n w)) = (\<Sum>r\<leftarrow>[0..<w]. mset_set {k. k < n \<and> k mod w = r})"
  proof (intro arg_cong [where f = sum_list] map_cong refl)
    fix r assume "r \<in> set [0..<w]"
    then have "r < w" by simp
    then have "set (py_range r n w) = {k. k < n \<and> k mod w = r}"
      using assms by (simp add: set_py_range_class)
    then show "mset (py_range r n w) = mset_set {k. k < n \<and> k mod w = r}"
      by (metis mset_set_set distinct_py_range)
  qed
  also have "\<dots> = mset_set {k. k < n \<and> k mod w < w}"
    by (rule mset_class_union) simp
  also have "{k. k < n \<and> k mod w < w} = {0..<n}" using assms by auto
  finally show ?thesis by (simp add: mset_upt)
qed

lemma image_mset_sum_list:
  "(\<Sum>r\<leftarrow>rs. image_mset f (g r)) = image_mset f (\<Sum>r\<leftarrow>rs. g r)"
  by (induction rs) simp_all

lemma mset_concat_chunks:
  assumes "0 < w"
  shows "mset (concat (chunks w xs)) = mset xs"
proof -
  have "mset (concat (chunks w xs))
          = (\<Sum>r\<leftarrow>[0..<w]. image_mset (\<lambda>k. xs ! k) (mset (py_range r (length xs) w)))"
    by (simp add: chunks_def slice_from_def mset_concat comp_def)
  also have "\<dots> = image_mset (\<lambda>k. xs ! k) (\<Sum>r\<leftarrow>[0..<w]. mset (py_range r (length xs) w))"
    by (rule image_mset_sum_list)
  also have "\<dots> = image_mset (\<lambda>k. xs ! k) (mset [0..<length xs])"
    using assms by (simp only: mset_index_classes)
  also have "\<dots> = mset (map (\<lambda>k. xs ! k) [0..<length xs])" by simp
  also have "\<dots> = mset xs" by (simp only: map_nth)
  finally show ?thesis .
qed

text \<open>
  Claim C2. For every record list and every worker count of at least 1, \<^verbatim>\<open>logs[i::size]\<close>
  puts the record at index \<open>i\<close> (in load order) into partition \<open>i mod size\<close>, at position
  \<open>i div size\<close> there; partition \<open>r\<close> holds exactly the records at the indices below the
  length that are congruent to \<open>r\<close>, each once, so the index sets of two different partitions
  are disjoint; and the partitions together hold the records of the input, each as often as
  the input does. The partitioning is a function of the records and the worker count.
\<close>

theorem chunks_round_robin:
  assumes "0 < nproc"
  shows "length (chunks nproc logs) = nproc
       \<and> (\<forall>i<length logs.
             i div nproc < length (chunks nproc logs ! (i mod nproc))
             \<and> chunks nproc logs ! (i mod nproc) ! (i div nproc) = logs ! i)
       \<and> (\<forall>r<nproc.
             chunks nproc logs ! r = map (\<lambda>k. logs ! k) (py_range r (length logs) nproc)
             \<and> distinct (py_range r (length logs) nproc)
             \<and> set (py_range r (length logs) nproc) = {k. k < length logs \<and> k mod nproc = r})
       \<and> (\<forall>r<nproc. \<forall>r'<nproc. r \<noteq> r' \<longrightarrow>
             set (py_range r (length logs) nproc) \<inter> set (py_range r' (length logs) nproc) = {})
       \<and> mset (concat (chunks nproc logs)) = mset logs"
proof (intro conjI allI impI)
  show "length (chunks nproc logs) = nproc" by (simp add: chunks_def)
next
  fix i assume i: "i < length logs"
  have m: "i mod nproc < nproc" using assms by simp
  have c: "chunks nproc logs ! (i mod nproc)
             = map (\<lambda>k. logs ! k) (py_range (i mod nproc) (length logs) nproc)"
    using m by (simp add: chunks_def slice_from_def)
  from py_range_class_nth [OF assms i]
  show "i div nproc < length (chunks nproc logs ! (i mod nproc))" by (simp add: c)
  from py_range_class_nth [OF assms i]
  show "chunks nproc logs ! (i mod nproc) ! (i div nproc) = logs ! i" by (simp add: c)
next
  fix r assume "r < nproc"
  then show "chunks nproc logs ! r = map (\<lambda>k. logs ! k) (py_range r (length logs) nproc)"
    by (simp add: chunks_def slice_from_def)
next
  fix r assume "r < nproc"
  show "distinct (py_range r (length logs) nproc)" by (rule distinct_py_range)
next
  fix r assume "r < nproc"
  then show "set (py_range r (length logs) nproc) = {k. k < length logs \<and> k mod nproc = r}"
    using assms by (simp add: set_py_range_class)
next
  fix r r' assume "r < nproc" "r' < nproc" "r \<noteq> r'"
  then show "set (py_range r (length logs) nproc) \<inter> set (py_range r' (length logs) nproc) = {}"
    using assms by (auto simp: set_py_range_class)
next
  show "mset (concat (chunks nproc logs)) = mset logs"
    using assms by (rule mset_concat_chunks)
qed

theorem chunks_round_robin_witness:
  "chunks 3 [''r0'', ''r1'', ''r2'', ''r3'', ''r4'', ''r5'', ''r6'']
     = [[''r0'', ''r3'', ''r6''], [''r1'', ''r4''], [''r2'', ''r5'']]
   \<and> chunks 3 [''r0'', ''r1'', ''r2'', ''r3'', ''r4'', ''r5'', ''r6''] ! (4 mod 3) ! (4 div 3) = ''r4''
   \<and> mset (concat (chunks 3 [''r0'', ''r1'', ''r2'', ''r3'', ''r4'', ''r5'', ''r6'']))
       = mset [''r0'', ''r1'', ''r2'', ''r3'', ''r4'', ''r5'', ''r6'']
   \<and> length (chunks 5 [''r0'', ''r1'']) = 5"
proof -
  let ?logs = "[''r0'', ''r1'', ''r2'', ''r3'', ''r4'', ''r5'', ''r6'']"
  have p3: "(0::nat) < 3" and p5: "(0::nat) < 5" by simp_all
  note th = chunks_round_robin [OF p3, of ?logs]
  have 1: "chunks 3 ?logs = [[''r0'', ''r3'', ''r6''], [''r1'', ''r4''], [''r2'', ''r5'']]"
    by code_simp
  have "\<forall>i<length ?logs. i div 3 < length (chunks 3 ?logs ! (i mod 3))
          \<and> chunks 3 ?logs ! (i mod 3) ! (i div 3) = ?logs ! i"
    using th by (elim conjE)
  then have "(4::nat) < length ?logs \<longrightarrow> chunks 3 ?logs ! (4 mod 3) ! (4 div 3) = ?logs ! 4"
    by blast
  then have 2: "chunks 3 ?logs ! (4 mod 3) ! (4 div 3) = ''r4''" by simp
  have 3: "mset (concat (chunks 3 ?logs)) = mset ?logs"
    using th by (elim conjE)
  have 4: "length (chunks 5 [''r0'', ''r1'']) = 5"
    using chunks_round_robin [OF p5, of "[''r0'', ''r1'']"] by (elim conjE)
  from 1 2 3 4 show ?thesis by (intro conjI)
qed

section \<open>Properties of the free-form detector\<close>

lemma freeform_line_hits: "freeform_line d line = bump_all d (line_hits line)"
  by (simp add: freeform_line_def line_hits_def bump_all_def split: option.splits)

lemma freeform_hits: "freeform d ls = bump_all d (concat (map line_hits ls))"
  unfolding freeform_def
  by (induction ls arbitrary: d) (simp_all add: freeform_line_hits bump_all_def)

lemma fallback_extract_hits: "fallback_extract d ls = bump_all d (concat (map findall_ip ls))"
  unfolding fallback_extract_def
  by (induction ls arbitrary: d) (simp_all add: bump_all_def)

lemma count_list_concat:
  "int (count_list (concat xss) k) = (\<Sum>xs\<leftarrow>xss. int (count_list xs k))"
  by (induction xss) simp_all

lemma dict_get_freeform:
  "dict_get (freeform d ls) k 0 = dict_get d k 0 + (\<Sum>l\<leftarrow>ls. int (count_list (line_hits l) k))"
  by (simp add: freeform_hits dict_get_bump_all count_list_concat comp_def)


lemma scenario_a_search: "search_failed_password scenario_a = Some ''10.0.0.5''"
  by code_simp

lemma scenario_b_search: "search_failed_password scenario_b = None"
  by code_simp

lemma scenario_b_findall: "findall_ip scenario_b = [''1.1.1.1'', ''2.2.2.2'']"
  by code_simp

lemma scenario_a_freeform: "freeform [] [scenario_a] = [(''10.0.0.5'', 1)]"
  by code_simp

lemma scenario_b_freeform: "freeform [] [scenario_b] = [(''1.1.1.1'', 1), (''2.2.2.2'', 1)]"
  by code_simp

lemma scenario_a_plain: "\<not> is_tabular (chunk_sample [scenario_a])"
  by code_simp

lemma scenario_b_plain: "\<not> is_tabular (chunk_sample [scenario_b])"
  by code_simp

text \<open>
  Claim C7. In the free-form detector a line that matches the Failed-password pattern adds
  one to the count of the captured IP and changes no other count; a line that does not
  match adds, to every key, the number of its occurrences among the IP-shaped matches of
  the line (\<^verbatim>\<open>re.findall\<close>: the non-overlapping matches from the left); so the count of a
  key after a chunk is the sum of these contributions over its lines. The two scenario
  lines give \<^verbatim>\<open>{"10.0.0.5": 1}\<close> and \<^verbatim>\<open>{"1.1.1.1": 1, "2.2.2.2": 1}\<close>, from the free-form
  loop and from \<^verbatim>\<open>analyze_logs\<close> as a whole, whatever the library calls would return.
\<close>

theorem freeform_counts:
  "(search_failed_password line = Some ip \<longrightarrow>
      freeform_line d line = bump d ip
      \<and> dict_get (freeform_line d line) k 0 = dict_get d k 0 + (if k = ip then 1 else 0))
   \<and> (search_failed_password line = None \<longrightarrow>
        freeform_line d line = bump_all d (findall_ip line)
        \<and> dict_get (freeform_line d line) k 0
            = dict_get d k 0 + int (count_list (findall_ip line) k))
   \<and> dict_get (freeform [] log_chunk) k 0
        = (\<Sum>l\<leftarrow>log_chunk.
             case search_failed_password l of
               Some ip \<Rightarrow> if k = ip then 1 else 0
             | None \<Rightarrow> int (count_list (findall_ip l) k))
   \<and> freeform []
        [''Jan 1 00:00:00 host sshd: Failed password for root from 10.0.0.5 port 22'']
        = [(''10.0.0.5'', 1)]
   \<and> analyze_logs lib
        [''Jan 1 00:00:00 host sshd: Failed password for root from 10.0.0.5 port 22'']
        = [(''10.0.0.5'', 1)]
   \<and> freeform [] [''seen 1.1.1.1 and 2.2.2.2''] = [(''1.1.1.1'', 1), (''2.2.2.2'', 1)]
   \<and> analyze_logs lib [''seen 1.1.1.1 and 2.2.2.2''] = [(''1.1.1.1'', 1), (''2.2.2.2'', 1)]"
proof -
  have 1: "search_failed_password line = Some ip \<longrightarrow>
      freeform_line d line = bump d ip
      \<and> dict_get (freeform_line d line) k 0 = dict_get d k 0 + (if k = ip then 1 else 0)"
    by (simp add: freeform_line_def dict_get_bump)
  have 2: "search_failed_password line = None \<longrightarrow>
        freeform_line d line = bump_all d (findall_ip line)
        \<and> dict_get (freeform_line d line) k 0
            = dict_get d k 0 + int (count_list (findall_ip line) k)"
    by (simp add: freeform_line_def dict_get_bump_all)
  have "dict_get (freeform [] log_chunk) k 0
          = (\<Sum>l\<leftarrow>log_chunk. int (count_list (line_hits l) k))"
    by (simp add: dict_get_freeform) (simp add: dict_get_def)
  also have "\<dots> = (\<Sum>l\<leftarrow>log_chunk.
             case search_failed_password l of
               Some ip \<Rightarrow> if k = ip then 1 else 0
             | None \<Rightarrow> int (count_list (findall_ip l) k))"
    by (intro arg_cong [where f = sum_list] map_cong refl)
       (simp add: line_hits_def split: option.splits)
  finally have 3: "dict_get (freeform [] log_chunk) k 0
        = (\<Sum>l\<leftarrow>log_chunk.
             case search_failed_password l of
               Some ip \<Rightarrow> if k = ip then 1 else 0
             | None \<Rightarrow> int (count_list (findall_ip l) k))" .
  have 4: "freeform []
        [''Jan 1 00:00:00 host sshd: Failed password for root from 10.0.0.5 port 22'']
        = [(''10.0.0.5'', 1)]"
    using scenario_a_freeform unfolding scenario_a_def .
  have 5: "analyze_logs lib
        [''Jan 1 00:00:00 host sshd: Failed password for root from 10.0.0.5 port 22'']
        = [(''10.0.0.5'', 1)]"
    using scenario_a_plain scenario_a_freeform unfolding scenario_a_def
    by (simp add: analyze_logs_def Let_def)
  have 6: "freeform [] [''seen 1.1.1.1 and 2.2.2.2''] = [(''1.1.1.1'', 1), (''2.2.2.2'', 1)]"
    using scenario_b_freeform unfolding scenario_b_def .
  have 7: "analyze_logs lib [''seen 1.1.1.1 and 2.2.2.2''] = [(''1.1.1.1'', 1), (''2.2.2.2'', 1)]"
    using scenario_b_plain scenario_b_freeform unfolding scenario_b_def
    by (simp add: analyze_logs_def Let_def)
  from 1 2 3 4 5 6 7 show ?thesis by (intro conjI)
qed

theorem freeform_counts_witness:
  "search_failed_password
     ''Jan 1 00:00:00 host sshd: Failed password for root from 10.0.0.5 port 22'' = Some ''10.0.0.5''
   \<and> freeform_line [(''10.0.0.5'', 4)]
        ''Jan 1 00:00:00 host sshd: Failed password for root from 10.0.0.5 port 22''
        = [(''10.0.0.5'', 5)]
   \<and> search_failed_password ''seen 1.1.1.1 and 2.2.2.2'' = None
   \<and> dict_get (freeform_line [(''2.2.2.2'', 7)] ''seen 1.1.1.1 and 2.2.2.2'') ''2.2.2.2'' 0 = 8"
proof -
  have a: "search_failed_password scenario_a = Some ''10.0.0.5''" by (rule scenario_a_search)
  have b: "search_failed_password scenario_b = None" by (rule scenario_b_search)
  have "freeform_line [(''10.0.0.5'', 4)] scenario_a = bump [(''10.0.0.5'', 4)] ''10.0.0.5''"
    using freeform_counts [of scenario_a "''10.0.0.5''" "[(''10.0.0.5'', 4)]"] a by blast
  then have 1: "freeform_line [(''10.0.0.5'', 4)] scenario_a = [(''10.0.0.5'', 5)]"
    by (simp add: bump_def dict_get_def)
  have "dict_get (freeform_line [(''2.2.2.2'', 7)] scenario_b) ''2.2.2.2'' 0
          = dict_get [(''2.2.2.2'', 7)] ''2.2.2.2'' 0 + int (count_list (findall_ip scenario_b) ''2.2.2.2'')"
    using freeform_counts [of scenario_b _ "[(''2.2.2.2'', 7)]" "''2.2.2.2''"] b by blast
  then have 2: "dict_get (freeform_line [(''2.2.2.2'', 7)] scenario_b) ''2.2.2.2'' 0 = 8"
    by (simp add: scenario_b_findall dict_get_def)
  from a b 1 2 show ?thesis unfolding scenario_a_def scenario_b_def by (intro conjI)
qed

section \<open>Positive counts\<close>

lemma positive_empty [simp]: "positive_tally []"
  by (simp add: positive_tally_def)

lemma dict_get_nonneg: "positive_tally d \<Longrightarrow> 0 \<le> dict_get d k 0"
proof (cases "map_of d k")
  case None
  then show ?thesis by (simp add: dict_get_def)
next
  case (Some v)
  assume p: "positive_tally d"
  from Some have "(k, v) \<in> set d" by (rule map_of_SomeD)
  with p have "0 < v" by (auto simp: positive_tally_def)
  with Some show ?thesis by (simp add: dict_get_def)
qed

lemma positive_update:
  "positive_tally d \<Longrightarrow> 0 < v \<Longrightarrow> positive_tally (AList.update k v d)"
  using set_update_subset [of k v d] by (auto simp: positive_tally_def)

lemma positive_bump: "positive_tally d \<Longrightarrow> positive_tally (bump d k)"
  unfolding bump_def
  using dict_get_nonneg [of d k] by (intro positive_update) simp_all

lemma positive_bump_all: "positive_tally d \<Longrightarrow> positive_tally (bump_all d ks)"
  unfolding bump_all_def
  by (induction ks arbitrary: d) (simp_all add: positive_bump)

lemma positive_freeform: "positive_tally d \<Longrightarrow> positive_tally (freeform d ls)"
  by (simp add: freeform_hits positive_bump_all)

lemma positive_fallback_extract: "positive_tally d \<Longrightarrow> positive_tally (fallback_extract d ls)"
  by (simp add: fallback_extract_hits positive_bump_all)

lemma distinct_freeform: "distinct (map fst d) \<Longrightarrow> distinct (map fst (freeform d ls))"
  by (simp add: freeform_hits distinct_bump_all)

lemma distinct_fallback_extract:
  "distinct (map fst d) \<Longrightarrow> distinct (map fst (fallback_extract d ls))"
  by (simp add: fallback_extract_hits distinct_bump_all)

lemma positive_scan_row:
  "positive_tally d \<Longrightarrow> positive_tally (scan_row lib df src_col attack_col d i row)"
  by (simp add: scan_row_def Let_def positive_bump)

lemma distinct_scan_row:
  "distinct (map fst d) \<Longrightarrow> distinct (map fst (scan_row lib df src_col attack_col d i row))"
  by (simp add: scan_row_def Let_def distinct_bump)

lemma scan_rows_from_invariant:
  "positive_tally d \<Longrightarrow> distinct (map fst d) \<Longrightarrow>
     positive_tally (left_tally (scan_rows_from lib df src_col attack_col d rs))
     \<and> distinct (map fst (left_tally (scan_rows_from lib df src_col attack_col d rs)))"
proof (induction rs arbitrary: d)
  case Nil
  then show ?case by (simp add: left_tally_def)
next
  case (Cons r rs)
  obtain i row where r: "r = (i, row)" by (cases r)
  show ?case
  proof (cases "row_error lib df i")
    case None
    have a: "positive_tally (scan_row lib df src_col attack_col d i row)"
      using Cons.prems(1) by (rule positive_scan_row)
    have b: "distinct (map fst (scan_row lib df src_col attack_col d i row))"
      using Cons.prems(2) by (rule distinct_scan_row)
    from Cons.IH [OF a b] None show ?thesis by (simp add: r)
  next
    case (Some e)
    with Cons.prems show ?thesis by (simp add: r left_tally_def)
  qed
qed

lemma scan_rows_invariant:
  "positive_tally (left_tally (scan_rows lib df src_col attack_col))
   \<and> distinct (map fst (left_tally (scan_rows lib df src_col attack_col)))"
  unfolding scan_rows_def by (rule scan_rows_from_invariant) simp_all

lemma frequency_fold_invariant:
  "positive_tally d \<Longrightarrow> distinct (map fst d) \<Longrightarrow>
     positive_tally
       (fold (\<lambda>(ip, cnt) acc. if match_ip ip \<noteq> None \<and> 1 < cnt then AList.update ip cnt acc else acc)
          kvs d)
     \<and> distinct (map fst
       (fold (\<lambda>(ip, cnt) acc. if match_ip ip \<noteq> None \<and> 1 < cnt then AList.update ip cnt acc else acc)
          kvs d))"
proof (induction kvs arbitrary: d)
  case Nil
  then show ?case by simp
next
  case (Cons p kvs)
  obtain j c where p: "p = (j, c)" by (cases p)
  define d' where "d' = (if match_ip j \<noteq> None \<and> 1 < c then AList.update j c d else d)"
  have a: "positive_tally d'" using Cons.prems(1) by (simp add: d'_def positive_update)
  have b: "distinct (map fst d')" using Cons.prems(2) by (simp add: d'_def distinct_update)
  from Cons.IH [OF a b] show ?case by (simp add: p d'_def)
qed

lemma frequency_fallback_invariant:
  "positive_tally d \<Longrightarrow> distinct (map fst d) \<Longrightarrow>
     positive_tally (frequency_fallback d vs) \<and> distinct (map fst (frequency_fallback d vs))"
  unfolding frequency_fallback_def by (rule frequency_fold_invariant)

lemma analyze_frame_invariant:
  "positive_tally (left_tally (analyze_frame lib df))
   \<and> distinct (map fst (left_tally (analyze_frame lib df)))"
proof (cases "find_src_col df")
  case (Inl e)
  then show ?thesis by (simp add: analyze_frame_def left_tally_def)
next
  case src: (Inr src_col)
  show ?thesis
  proof (cases "find_attack_col df")
    case (Inl e)
    with src show ?thesis by (simp add: analyze_frame_def left_tally_def)
  next
    case att: (Inr attack_col)
    note inv = scan_rows_invariant [of lib df src_col attack_col]
    show ?thesis
    proof (cases "scan_rows lib df src_col attack_col")
      case (Inl failure)
      with src att inv show ?thesis by (simp add: analyze_frame_def)
    next
      case (Inr t)
      with inv have t: "positive_tally t" "distinct (map fst t)"
        by (simp_all add: left_tally_def)
      from frequency_fallback_invariant [OF t] src att Inr t show ?thesis
        by (auto simp: analyze_frame_def left_tally_def split: option.splits)
    qed
  qed
qed

lemma tabular_attempt_invariant:
  "positive_tally (left_tally (tabular_attempt lib sample log_chunk))
   \<and> distinct (map fst (left_tally (tabular_attempt lib sample log_chunk)))"
proof (cases "read_csv lib (join_lines log_chunk) (sniff_delimiter lib sample)")
  case (Inl e)
  then show ?thesis by (simp add: tabular_attempt_def Let_def left_tally_def)
next
  case (Inr df)
  with analyze_frame_invariant [of lib "normalize_columns df"] show ?thesis
    by (simp add: tabular_attempt_def Let_def)
qed

lemma analyze_logs_invariant:
  "positive_tally (analyze_logs lib log_chunk) \<and> distinct (map fst (analyze_logs lib log_chunk))"
proof (cases "is_tabular (chunk_sample log_chunk)")
  case False
  then show ?thesis
    by (simp add: analyze_logs_def Let_def positive_freeform distinct_freeform)
next
  case True
  note inv = tabular_attempt_invariant [of lib "chunk_sample log_chunk" log_chunk]
  show ?thesis
  proof (cases "tabular_attempt lib (chunk_sample log_chunk) log_chunk")
    case (Inl failure)
    obtain e p where f: "failure = (e, p)" by (cases failure)
    from inv Inl f have "positive_tally p" "distinct (map fst p)"
      by (simp_all add: left_tally_def)
    with True Inl f show ?thesis
      by (simp add: analyze_logs_def Let_def positive_fallback_extract distinct_fallback_extract)
  next
    case (Inr t)
    with True inv show ?thesis
      by (simp add: analyze_logs_def Let_def left_tally_def)
  qed
qed

lemma analyze_logs_empty: "analyze_logs lib [] = []"
proof -
  have "\<not> is_tabular (chunk_sample [])" by code_simp
  then show ?thesis by (simp add: analyze_logs_def Let_def freeform_def)
qed

lemma positive_merge_one:
  "positive_tally final \<Longrightarrow> positive_tally r \<Longrightarrow> positive_tally (merge_one final r)"
  unfolding merge_one_def
proof (induction r arbitrary: final)
  case Nil
  then show ?case by simp
next
  case (Cons p r)
  obtain j c where p: "p = (j, c)" by (cases p)
  from Cons.prems(2) p have c: "0 < c" and r: "positive_tally r"
    by (auto simp: positive_tally_def)
  have "positive_tally (AList.update j (dict_get final j 0 + c) final)"
    using Cons.prems(1) c dict_get_nonneg [OF Cons.prems(1), of j]
    by (intro positive_update) simp_all
  from Cons.IH [OF this r] show ?case by (simp add: p)
qed

lemma positive_merge_fold:
  "positive_tally acc \<Longrightarrow> \<forall>t\<in>set ts. positive_tally t \<Longrightarrow>
     positive_tally (fold (\<lambda>r acc. merge_one acc r) ts acc)"
  by (induction ts arbitrary: acc) (simp_all add: positive_merge_one)

lemma positive_merge_tallies:
  "\<forall>t\<in>set ts. positive_tally t \<Longrightarrow> positive_tally (merge_tallies ts)"
  unfolding merge_tallies_def by (rule positive_merge_fold) simp_all

text \<open>
  Claim C10. For every chunk, the empty one included, and whatever the library calls
  return, \<^verbatim>\<open>analyze_logs\<close> returns a tally (a finite list of entries with distinct keys) in
  which every count is strictly positive; the empty chunk gives the empty tally; merging
  tallies with positive counts gives positive counts; so a tally written as the result of a
  run is not empty and binds no key to zero or to a negative count.
\<close>

theorem tallies_positive:
  "(\<forall>(ip, c)\<in>set (analyze_logs lib log_chunk). 0 < c)
   \<and> distinct (map fst (analyze_logs lib log_chunk))
   \<and> analyze_logs lib [] = []
   \<and> ((\<forall>t\<in>set ts. \<forall>(ip, c)\<in>set t. 0 < c) \<longrightarrow> (\<forall>(ip, c)\<in>set (merge_tallies ts). 0 < c))
   \<and> (run_analysis lib nproc logs = Some (Tally t) \<longrightarrow> t \<noteq> [] \<and> (\<forall>(ip, c)\<in>set t. 0 < c))"
proof (intro conjI impI)
  show "\<forall>(ip, c)\<in>set (analyze_logs lib log_chunk). 0 < c"
    using analyze_logs_invariant [of lib log_chunk] by (simp add: positive_tally_def)
  show "distinct (map fst (analyze_logs lib log_chunk))"
    using analyze_logs_invariant [of lib log_chunk] by simp
  show "analyze_logs lib [] = []" by (rule analyze_logs_empty)
next
  assume "\<forall>t\<in>set ts. \<forall>(ip, c)\<in>set t. 0 < c"
  then have "\<forall>t\<in>set ts. positive_tally t" by (simp add: positive_tally_def)
  then have "positive_tally (merge_tallies ts)" by (rule positive_merge_tallies)
  then show "\<forall>(ip, c)\<in>set (merge_tallies ts). 0 < c" by (simp add: positive_tally_def)
next
  assume r: "run_analysis lib nproc logs = Some (Tally t)"
  let ?ts = "map (analyze_logs lib) (chunks nproc logs)"
  from r have a: "aggregate ?ts = Tally t"
    by (simp add: run_analysis_def split: if_splits)
  then have t: "t = merge_tallies ?ts" and ne: "merge_tallies ?ts \<noteq> []"
    by (auto simp: aggregate_def Let_def split: if_splits)
  have "\<forall>u\<in>set ?ts. positive_tally u" using analyze_logs_invariant by auto
  then have "positive_tally (merge_tallies ?ts)" by (rule positive_merge_tallies)
  with t ne show "t \<noteq> []" and "\<forall>(ip, c)\<in>set t. 0 < c"
    by (simp_all add: positive_tally_def)
qed

theorem tallies_positive_witness:
  "analyze_logs recorded_lib [''src_ip,label'', ''9.9.9.9,benign'', ''9.9.9.9,exploit''] = [(''9.9.9.9'', 1)]
   \<and> merge_tallies [[(''9.9.9.9'', 1)], [(''9.9.9.9'', 2), (''8.8.8.8'', 1)]]
       = [(''9.9.9.9'', 3), (''8.8.8.8'', 1)]
   \<and> (0::int) < 3
   \<and> run_analysis recorded_lib 1 [''src_ip,label'', ''9.9.9.9,benign'', ''9.9.9.9,exploit'']
       = Some (Tally [(''9.9.9.9'', 1)])
   \<and> [(''9.9.9.9'', 1::int)] \<noteq> []"
proof -
  let ?logs = "[''src_ip,label'', ''9.9.9.9,benign'', ''9.9.9.9,exploit'']"
  let ?ts = "[[(''9.9.9.9'', 1)], [(''9.9.9.9'', 2), (''8.8.8.8'', 1)]] :: tally list"
  have 1: "analyze_logs recorded_lib ?logs = [(''9.9.9.9'', 1)]" by code_simp
  have 2: "merge_tallies ?ts = [(''9.9.9.9'', 3), (''8.8.8.8'', 1)]" by code_simp
  have 4: "run_analysis recorded_lib 1 ?logs = Some (Tally [(''9.9.9.9'', 1)])" by code_simp
  note th = tallies_positive [of recorded_lib ?logs ?ts 1 ?logs "[(''9.9.9.9'', 1)]"]
  have p: "\<forall>t\<in>set ?ts. \<forall>(ip, c)\<in>set t. 0 < c" by simp
  from th p have "\<forall>(ip, c)\<in>set (merge_tallies ?ts). 0 < c" by blast
  then have 3: "(0::int) < 3" unfolding 2 by simp
  from th 4 have 5: "[(''9.9.9.9'', 1::int)] \<noteq> []" by blast
  from 1 2 3 4 5 show ?thesis by (intro conjI)
qed

section \<open>Properties of the recovery from a failed tabular attempt\<close>













section \<open>The benign labels\<close>

text \<open>
  Claim C6 (the benign-set law), evaluated where the code breaks it. The comment at the
  benign test reads \<^verbatim>\<open>treat numeric-like or empty as non-attack\<close>, and the tuple holds the
  empty string and \<^verbatim>\<open>0\<close>. But the cell of an empty label is a missing value, whose text is
  \<^verbatim>\<open>nan\<close>, and a \<^verbatim>\<open>0\<close> in a column that also has a missing value is the float \<^verbatim>\<open>0.0\<close>:
  neither text is in the tuple, the attack-column branch is taken, and it increments the
  tally for the row.
\<close>

theorem empty_or_zero_label_is_counted:
  "read_csv recorded_lib (join_lines empty_label_logs) '','' = Inr empty_label_frame
   \<and> normalize_columns empty_label_frame = empty_label_frame
   \<and> find_src_col empty_label_frame = Inr ''src_ip''
   \<and> find_attack_col empty_label_frame = Inr (Some ''label'')
   \<and> attack_cell recorded_lib empty_label_frame (Some ''label'') 0
        (map text_cell [''1.1.1.1'', ''nan'']) = ''nan''
   \<and> attack_branch recorded_lib empty_label_frame (Some ''label'') 0
        (map text_cell [''1.1.1.1'', ''nan''])
   \<and> attack_counts recorded_lib empty_label_frame (Some ''label'') 0
        (map text_cell [''1.1.1.1'', ''nan''])
   \<and> scan_rows recorded_lib empty_label_frame ''src_ip'' (Some ''label'')
        = Inr [(''1.1.1.1'', 1), (''2.2.2.2'', 1)]
   \<and> analyze_logs recorded_lib empty_label_logs = [(''1.1.1.1'', 1), (''2.2.2.2'', 1)]
   \<and> read_csv recorded_lib (join_lines zero_label_logs) '','' = Inr zero_label_frame
   \<and> attack_cell recorded_lib zero_label_frame (Some ''label'') 0
        (map text_cell [''1.1.1.1'', ''0.0'']) = ''0.0''
   \<and> analyze_logs recorded_lib zero_label_logs = [(''1.1.1.1'', 1), (''2.2.2.2'', 1)]"
proof -
  have 1: "read_csv recorded_lib (join_lines empty_label_logs) '','' = Inr empty_label_frame"
    by code_simp
  have 2: "normalize_columns empty_label_frame = empty_label_frame" by code_simp
  have 3: "find_src_col empty_label_frame = Inr ''src_ip''" by code_simp
  have 4: "find_attack_col empty_label_frame = Inr (Some ''label'')" by code_simp
  have 5: "attack_cell recorded_lib empty_label_frame (Some ''label'') 0
        (map text_cell [''1.1.1.1'', ''nan'']) = ''nan''" by code_simp
  have 6: "attack_branch recorded_lib empty_label_frame (Some ''label'') 0
        (map text_cell [''1.1.1.1'', ''nan''])" by code_simp
  have 7: "attack_counts recorded_lib empty_label_frame (Some ''label'') 0
        (map text_cell [''1.1.1.1'', ''nan''])" by code_simp
  have 8: "scan_rows recorded_lib empty_label_frame ''src_ip'' (Some ''label'')
        = Inr [(''1.1.1.1'', 1), (''2.2.2.2'', 1)]" by code_simp
  have 9: "analyze_logs recorded_lib empty_label_logs = [(''1.1.1.1'', 1), (''2.2.2.2'', 1)]"
    by code_simp
  have 10: "read_csv recorded_lib (join_lines zero_label_logs) '','' = Inr zero_label_frame"
    by code_simp
  have 11: "attack_cell recorded_lib zero_label_frame (Some ''label'') 0
        (map text_cell [''1.1.1.1'', ''0.0'']) = ''0.0''" by code_simp
  have 12: "analyze_logs recorded_lib zero_label_logs = [(''1.1.1.1'', 1), (''2.2.2.2'', 1)]"
    by code_simp
  from 1 2 3 4 5 6 7 8 9 10 11 12 show ?thesis by (intro conjI)
qed

section \<open>Columns returned by the inference\<close>







section \<open>Properties of the frequency fallback\<close>





















section \<open>Properties of the source column inference\<close>











section \<open>Properties of the loader\<close>











section \<open>Independence of the worker count\<close>

text \<open>
  Claim C1 fails on delimited input: the header is consumed once per chunk, and the
  tabular classification, the column inference and the frequency fallback are all made
  per chunk. With one worker the two lines below are a header and a counted row; with two
  workers each line is a header of its own.
\<close>

theorem worker_count_changes_result_counterexample:
  "run_analysis recorded_lib 1 labelled_logs = Some (Tally [(''9.9.9.9'', 1)])
   \<and> run_analysis recorded_lib 2 labelled_logs = Some (Message no_results_message)
   \<and> \<not> same_content (Tally [(''9.9.9.9'', 1)]) (Message no_results_message)"
proof -
  have 1: "run_analysis recorded_lib 1 labelled_logs = Some (Tally [(''9.9.9.9'', 1)])"
    by code_simp
  have 2: "run_analysis recorded_lib 2 labelled_logs = Some (Message no_results_message)"
    by code_simp
  have 3: "\<not> same_content (Tally [(''9.9.9.9'', 1)]) (Message no_results_message)"
    by simp
  from 1 2 3 show ?thesis by (intro conjI)
qed

lemma hit_total_concat: "hit_total (concat cs) k = (\<Sum>c\<leftarrow>cs. hit_total c k)"
  unfolding hit_total_def by (induction cs) simp_all

lemma hit_total_mset: "mset ls = mset ls' \<Longrightarrow> hit_total ls k = hit_total ls' k"
  unfolding hit_total_def by (rule sum_list_mset_cong)

lemma hit_total_nonneg: "0 \<le> hit_total ls k"
  unfolding hit_total_def by (induction ls) simp_all

lemma hit_total_pos_iff: "0 < hit_total ls k \<longleftrightarrow> (\<exists>l\<in>set ls. k \<in> set (line_hits l))"
proof (induction ls)
  case Nil
  then show ?case by (simp add: hit_total_def)
next
  case (Cons l ls)
  have c: "0 < int (count_list (line_hits l) k) \<longleftrightarrow> k \<in> set (line_hits l)"
    using count_list_0_iff [of "line_hits l" k] by auto
  have "hit_total (l # ls) k = int (count_list (line_hits l) k) + hit_total ls k"
    by (simp add: hit_total_def)
  then have "0 < hit_total (l # ls) k \<longleftrightarrow> 0 < int (count_list (line_hits l) k) \<or> 0 < hit_total ls k"
    using hit_total_nonneg [of ls k] by auto
  with c Cons.IH show ?case by simp
qed

lemma dict_get_freeform_empty: "dict_get (freeform [] c) k 0 = hit_total c k"
  by (simp only: dict_get_freeform hit_total_def) (simp add: dict_get_def)

lemma keys_freeform_empty: "fst ` set (freeform [] c) = (\<Union>l\<in>set c. set (line_hits l))"
  by (simp add: freeform_hits keys_bump_all)

lemma entry_sum_freeform: "entry_sum (freeform [] c) k = hit_total c k"
proof -
  have "distinct (map fst (freeform [] c))" by (simp add: distinct_freeform)
  then show ?thesis by (simp add: entry_sum_distinct dict_get_freeform_empty)
qed

lemma map_of_merge_freeform:
  "map_of (merge_tallies (map (freeform []) cs)) k =
     (if 0 < hit_total (concat cs) k then Some (hit_total (concat cs) k) else None)"
proof -
  have a: "(\<Sum>t\<leftarrow>map (freeform []) cs. entry_sum t k) = hit_total (concat cs) k"
    by (simp add: hit_total_concat comp_def entry_sum_freeform)
  have b: "(\<exists>t\<in>set (map (freeform []) cs). k \<in> fst ` set t) \<longleftrightarrow> 0 < hit_total (concat cs) k"
    by (simp add: hit_total_pos_iff keys_freeform_empty)
  show ?thesis
    unfolding map_of_merge_tallies a b by (rule refl)
qed

lemma analyze_plain_chunks:
  "\<forall>c\<in>set cs. \<not> is_tabular (chunk_sample c) \<Longrightarrow>
     map (analyze_logs lib) cs = map (freeform []) cs"
  by (intro map_cong refl) (simp add: analyze_logs_def Let_def)

lemma map_of_merge_plain_chunks:
  assumes "0 < w" and "\<forall>c\<in>set (chunks w logs). \<not> is_tabular (chunk_sample c)"
  shows "map_of (merge_tallies (map (analyze_logs lib) (chunks w logs))) k =
           (if 0 < hit_total logs k then Some (hit_total logs k) else None)"
proof -
  have "mset (concat (chunks w logs)) = mset logs" using assms(1) by (rule mset_concat_chunks)
  then have h: "hit_total (concat (chunks w logs)) k = hit_total logs k" by (rule hit_total_mset)
  show ?thesis
    unfolding analyze_plain_chunks [OF assms(2)] map_of_merge_freeform h by (rule refl)
qed

lemma same_content_aggregate:
  assumes "map_of (merge_tallies ts) = map_of (merge_tallies us)"
  shows "same_content (aggregate ts) (aggregate us)"
proof -
  have "merge_tallies ts = [] \<longleftrightarrow> merge_tallies us = []"
    using assms by (metis map_of_eq_empty_iff)
  with assms show ?thesis by (simp add: aggregate_def Let_def)
qed

text \<open>
  Claim C1, amended. For every non-empty input (records being texts of code points below
  256) and any two worker counts of at least 1 under which every partition is classified
  as free-form (the first ten lines of the partition, joined by newlines, hold no comma,
  tab or semicolon and no two whitespace characters in a row), both runs return a result
  and the two results have the same content: the same message or the same IP-to-count
  mapping, which is the one the free-form detector gives on the whole input. This holds
  whatever the library calls return. (On an empty input no result is produced.)
\<close>

theorem worker_count_irrelevant_for_plain_chunks:
  assumes "0 < w1" and "0 < w2" and "logs \<noteq> []"
    and "\<forall>c\<in>set (chunks w1 logs). \<not> is_tabular (chunk_sample c)"
    and "\<forall>c\<in>set (chunks w2 logs). \<not> is_tabular (chunk_sample c)"
  shows "\<exists>r1 r2. run_analysis lib w1 logs = Some r1 \<and> run_analysis lib w2 logs = Some r2
           \<and> same_content r1 r2 \<and> same_content r1 (aggregate [freeform [] logs])"
proof -
  let ?t1 = "map (analyze_logs lib) (chunks w1 logs)"
  let ?t2 = "map (analyze_logs lib) (chunks w2 logs)"
  have m1: "map_of (merge_tallies ?t1) k =
              (if 0 < hit_total logs k then Some (hit_total logs k) else None)" for k
    using assms(1,4) by (rule map_of_merge_plain_chunks)
  have m2: "map_of (merge_tallies ?t2) k =
              (if 0 < hit_total logs k then Some (hit_total logs k) else None)" for k
    using assms(2,5) by (rule map_of_merge_plain_chunks)
  have m3: "map_of (merge_tallies [freeform [] logs]) k =
              (if 0 < hit_total logs k then Some (hit_total logs k) else None)" for k
    using map_of_merge_freeform [of "[logs]" k] by simp
  have e12: "map_of (merge_tallies ?t1) = map_of (merge_tallies ?t2)"
    by (rule ext) (simp only: m1 m2)
  have e13: "map_of (merge_tallies ?t1) = map_of (merge_tallies [freeform [] logs])"
    by (rule ext) (simp only: m1 m3)
  have s12: "same_content (aggregate ?t1) (aggregate ?t2)"
    using e12 by (rule same_content_aggregate)
  have s13: "same_content (aggregate ?t1) (aggregate [freeform [] logs])"
    using e13 by (rule same_content_aggregate)
  have r1: "run_analysis lib w1 logs = Some (aggregate ?t1)"
    using assms(3) by (simp add: run_analysis_def)
  have r2: "run_analysis lib w2 logs = Some (aggregate ?t2)"
    using assms(3) by (simp add: run_analysis_def)
  from r1 r2 s12 s13 show ?thesis by blast
qed

theorem worker_count_irrelevant_for_plain_chunks_witness:
  "run_analysis recorded_lib 1 [scenario_a, scenario_b, scenario_a]
     = Some (Tally [(''10.0.0.5'', 2), (''1.1.1.1'', 1), (''2.2.2.2'', 1)])
   \<and> run_analysis recorded_lib 2 [scenario_a, scenario_b, scenario_a]
       = Some (Tally [(''10.0.0.5'', 2), (''1.1.1.1'', 1), (''2.2.2.2'', 1)])
   \<and> (\<exists>r1 r2. run_analysis recorded_lib 1 [scenario_a, scenario_b, scenario_a] = Some r1
          \<and> run_analysis recorded_lib 2 [scenario_a, scenario_b, scenario_a] = Some r2
          \<and> same_content r1 r2
          \<and> same_content r1 (aggregate [freeform [] [scenario_a, scenario_b, scenario_a]]))"
proof -
  let ?logs = "[scenario_a, scenario_b, scenario_a]"
  have p1: "(0::nat) < 1" and p2: "(0::nat) < 2" by simp_all
  have ne: "?logs \<noteq> []" by simp
  have c1: "chunks 1 ?logs = [[scenario_a, scenario_b, scenario_a]]" by code_simp
  have c2: "chunks 2 ?logs = [[scenario_a, scenario_a], [scenario_b]]" by code_simp
  have t1: "\<not> is_tabular (chunk_sample [scenario_a, scenario_b, scenario_a])" by code_simp
  have t2: "\<not> is_tabular (chunk_sample [scenario_a, scenario_a])" by code_simp
  have t3: "\<not> is_tabular (chunk_sample [scenario_b])" by code_simp
  have h1: "\<forall>c\<in>set (chunks 1 ?logs). \<not> is_tabular (chunk_sample c)"
    unfolding c1 using t1 by simp
  have h2: "\<forall>c\<in>set (chunks 2 ?logs). \<not> is_tabular (chunk_sample c)"
    unfolding c2 using t2 t3 by simp
  have 1: "run_analysis recorded_lib 1 ?logs
     = Some (Tally [(''10.0.0.5'', 2), (''1.1.1.1'', 1), (''2.2.2.2'', 1)])"
    by code_simp
  have 2: "run_analysis recorded_lib 2 ?logs
     = Some (Tally [(''10.0.0.5'', 2), (''1.1.1.1'', 1), (''2.2.2.2'', 1)])"
    by code_simp
  have 3: "\<exists>r1 r2. run_analysis recorded_lib 1 ?logs = Some r1
          \<and> run_analysis recorded_lib 2 ?logs = Some r2
          \<and> same_content r1 r2
          \<and> same_content r1 (aggregate [freeform [] ?logs])"
    using p1 p2 ne h1 h2 by (rule worker_count_irrelevant_for_plain_chunks)
  from 1 2 3 show ?thesis by (intro conjI)
qed

end
